theory Spec2Isabelle
  imports Complex_Main "HOL-Library.AList"
begin

section \<open>Data model of sync360.py\<close>

text \<open>
  A department row is one dict of \<^verbatim>\<open>departments.csv\<close> as \<^verbatim>\<open>load_csv\<close> returns it.
  \<^verbatim>\<open>external_id\<close> and \<^verbatim>\<open>name\<close> are read with \<^verbatim>\<open>r["..."]\<close> and are required by
  \<^verbatim>\<open>validate_departments_csv\<close>; the other columns are only read through
  \<^verbatim>\<open>r.get(...) or None\<close>, which maps a missing key, \<^verbatim>\<open>None\<close> and the empty string to
  \<^verbatim>\<open>None\<close>: they are \<open>string option\<close> and \<open>or_None\<close> is the truthiness test.
\<close>

record dept_row =
  external_id :: string
  dept_name :: string
  parent_external_id :: "string option"
  dept_label :: "string option"
  dept_description :: "string option"

definition or_None :: "string option \<Rightarrow> string option" where
  "or_None v = (case v of None \<Rightarrow> None | Some s \<Rightarrow> if s = [] then None else Some s)"

text \<open>
  The identifier the service assigns to a department is a JSON scalar; the code tests it
  for truthiness (\<^verbatim>\<open>if parent_id:\<close>) and for equality only.
\<close>

datatype rid = IntId int | StrId string

fun truthy_id :: "rid \<Rightarrow> bool" where
  "truthy_id (IntId n) = (n \<noteq> 0)"
| "truthy_id (StrId s) = (s \<noteq> [])"

text \<open>
  A department object of the service (an element of \<^verbatim>\<open>DEPT_CACHE\<close>, or the body of a
  create or update response), given by the three keys that the program reads. A field that
  is \<open>None\<close> is a key that the object does not have. \<^verbatim>\<open>id\<close> is read unguarded
  (\<^verbatim>\<open>d["id"]\<close>, a \<^verbatim>\<open>KeyError\<close> when the key is missing), the two other keys through
  \<^verbatim>\<open>d.get\<close>.
\<close>

record remote_dept =
  rd_id :: "rid option"
  rd_externalId :: "string option"
  rd_name :: "string option"

text \<open>
  The object with none of the keys is the empty dict, the one dict that is falsy. \<open>truthy\<close>
  is the test \<^verbatim>\<open>if existing:\<close> on the result of a lookup, which is \<^verbatim>\<open>None\<close> or a dict.
\<close>

definition no_keys :: remote_dept where
  "no_keys = \<lparr>rd_id = None, rd_externalId = None, rd_name = None\<rparr>"

definition truthy :: "remote_dept option \<Rightarrow> bool" where
  "truthy existing = (case existing of None \<Rightarrow> False | Some d \<Rightarrow> d \<noteq> no_keys)"

section \<open>Hierarchy resolution: the first half of build_hierarchy_and_create\<close>

text \<open>\<^verbatim>\<open>by_ext = {r["external_id"]: r for r in dept_rows}\<close>: a later row wins.\<close>

definition by_ext_of :: "dept_row list \<Rightarrow> (string \<rightharpoonup> dept_row)" where
  "by_ext_of dept_rows = fold (\<lambda>r m. m(external_id r \<mapsto> r)) dept_rows Map.empty"

text \<open>
  \<^verbatim>\<open>indeg = defaultdict(int)\<close> is iterated (\<^verbatim>\<open>indeg.items()\<close>), so its insertion order
  matters: it is an association list, where \<open>AList.update\<close> overwrites in place or appends
  at the end, as a Python dict does. \<^verbatim>\<open>graph = defaultdict(list)\<close> is only looked up.
\<close>

type_synonym indeg_t = "(string \<times> int) list"
type_synonym graph_t = "string \<rightharpoonup> string list"

definition dd_get :: "indeg_t \<Rightarrow> string \<Rightarrow> int" where
  "dd_get indeg k = (case map_of indeg k of None \<Rightarrow> 0 | Some v \<Rightarrow> v)"

definition dd_add :: "indeg_t \<Rightarrow> string \<Rightarrow> int \<Rightarrow> indeg_t" where
  "dd_add indeg k d = AList.update k (dd_get indeg k + d) indeg"

definition dd_setdefault :: "indeg_t \<Rightarrow> string \<Rightarrow> int \<Rightarrow> indeg_t" where
  "dd_setdefault indeg k v = (case map_of indeg k of None \<Rightarrow> AList.update k v indeg | Some _ \<Rightarrow> indeg)"

definition graph_get :: "graph_t \<Rightarrow> string \<Rightarrow> string list" where
  "graph_get graph u = (case graph u of None \<Rightarrow> [] | Some vs \<Rightarrow> vs)"

text \<open>The body of \<^verbatim>\<open>for r in dept_rows\<close> (lines 161-167).\<close>

definition build_graph_step ::
  "(string \<rightharpoonup> dept_row) \<Rightarrow> dept_row \<Rightarrow> graph_t \<times> indeg_t \<Rightarrow> graph_t \<times> indeg_t" where
  "build_graph_step by_ext r gi =
     (case gi of (graph, indeg) \<Rightarrow>
        (case or_None (parent_external_id r) of
           None \<Rightarrow> (graph, dd_setdefault indeg (external_id r) 0)
         | Some pe \<Rightarrow>
             if by_ext pe \<noteq> None
             then (graph(pe \<mapsto> graph_get graph pe @ [external_id r]),
                   dd_add indeg (external_id r) 1)
             else (graph, dd_setdefault indeg (external_id r) 0)))"

definition build_graph :: "dept_row list \<Rightarrow> graph_t \<times> indeg_t" where
  "build_graph dept_rows = fold (build_graph_step (by_ext_of dept_rows)) dept_rows (Map.empty, [])"

text \<open>The body of \<^verbatim>\<open>for v in graph.get(u, [])\<close> (lines 175-177).\<close>

definition relax :: "string \<Rightarrow> indeg_t \<times> string list \<Rightarrow> indeg_t \<times> string list" where
  "relax v iq =
     (case iq of (indeg, q) \<Rightarrow>
        (let indeg' = dd_add indeg v (- 1)
         in if dd_get indeg' v = 0 then (indeg', q @ [v]) else (indeg', q)))"

definition npos :: "indeg_t \<Rightarrow> nat" where
  "npos indeg = length (filter (\<lambda>kv. 0 < snd kv) indeg)"

lemma npos_update:
  "npos (AList.update k v indeg) + (if 0 < dd_get indeg k then 1 else 0)
     = npos indeg + (if 0 < v then 1 else 0)"
  by (induction indeg) (auto simp: npos_def dd_get_def)

lemma relax_measure:
  "relax v (indeg, q) = (indeg', q') \<Longrightarrow> length q' + npos indeg' = length q + npos indeg"
  using npos_update [of v "dd_get indeg v - 1" indeg]
  by (auto simp: relax_def Let_def dd_add_def dd_get_def update_conv' split: if_splits)

lemma fold_relax_measure:
  "fold relax vs (indeg, q) = (indeg', q') \<Longrightarrow> length q' + npos indeg' = length q + npos indeg"
proof (induction vs arbitrary: indeg q)
  case Nil
  then show ?case by simp
next
  case (Cons v vs)
  obtain i1 q1 where s: "relax v (indeg, q) = (i1, q1)" by (cases "relax v (indeg, q)")
  with Cons.prems have "fold relax vs (i1, q1) = (indeg', q')" by simp
  from Cons.IH [OF this] relax_measure [OF s] show ?case by simp
qed

text \<open>The \<^verbatim>\<open>while q\<close> loop (lines 171-177); \<open>q\<close> is the deque, \<open>order\<close> the output so far.\<close>

function kahn_loop :: "graph_t \<Rightarrow> indeg_t \<Rightarrow> string list \<Rightarrow> string list \<Rightarrow> string list" where
  "kahn_loop graph indeg [] order = order"
| "kahn_loop graph indeg (u # q) order =
     (case fold relax (graph_get graph u) (indeg, q) of
        (indeg', q') \<Rightarrow> kahn_loop graph indeg' q' (order @ [u]))"
  by pat_completeness auto
termination
  apply (relation "measure (\<lambda>(graph, indeg, q, order). length q + npos indeg)")
   apply simp
  apply (auto dest!: fold_relax_measure [OF sym])
  done

text \<open>
  Lines 157-178: the order Kahn's algorithm produces, before its length is compared with
  the number of rows.
\<close>

definition initial_queue :: "indeg_t \<Rightarrow> string list" where
  "initial_queue indeg = map fst (filter (\<lambda>kv. snd kv = 0) indeg)"

definition kahn_order :: "dept_row list \<Rightarrow> string list" where
  "kahn_order dept_rows =
     (case build_graph dept_rows of
        (graph, indeg) \<Rightarrow> kahn_loop graph indeg (initial_queue indeg) [])"

section \<open>The remote service and the process state\<close>

text \<open>
  A cell of \<^verbatim>\<open>users.csv\<close>: \<^verbatim>\<open>csv.DictReader\<close> yields a string, or \<^verbatim>\<open>None\<close> for a
  row shorter than the header. An optional column that the file does not have is a
  missing key: the field is \<open>None\<close>.
\<close>

datatype py_value = PyNone | PyStr string

record user_row =
  u_nickname :: string
  u_first :: string
  u_last :: string
  u_dept_external_id :: string
  u_middle :: "py_value option"
  u_position :: "py_value option"
  u_language :: "py_value option"
  u_timezone :: "py_value option"
  u_externalId :: "py_value option"
  u_password :: "py_value option"
  u_passwordChangeRequired :: "py_value option"

text \<open>The JSON bodies the code sends; an optional key is present iff the field is \<open>Some\<close>.\<close>

record update_payload =
  up_externalId :: string
  up_label :: "string option"
  up_description :: "string option"

record create_payload =
  cp_name :: string
  cp_externalId :: string
  cp_parentId :: "rid option"
  cp_label :: "string option"
  cp_description :: "string option"

record user_payload =
  ub_nickname :: string
  ub_departmentId :: rid
  ub_first :: string
  ub_last :: string
  ub_middle :: py_value
  ub_position :: py_value
  ub_language :: py_value
  ub_timezone :: py_value
  ub_externalId :: py_value
  ub_password :: py_value
  ub_passwordChangeRequired :: bool

text \<open>
  The four requests of the program: \<^verbatim>\<open>S.get\<close> of a page of departments (page, perPage),
  \<^verbatim>\<open>S.patch\<close> of one department, \<^verbatim>\<open>S.post\<close> of a department and of a user.
\<close>

datatype request =
  ListDepartments int int
| PatchDepartment rid update_payload
| PostDepartment create_payload
| PostUser user_payload

text \<open>
  What \<^verbatim>\<open>r.json()\<close> gives. \<open>JsonObject d departments pages\<close> is a JSON object, given by the
  keys that the program reads: \<^verbatim>\<open>id\<close>, \<^verbatim>\<open>externalId\<close> and \<^verbatim>\<open>name\<close> in \<open>d\<close> (they are what
  the program can see of the object once it is stored in the cache), and \<^verbatim>\<open>departments\<close>
  and \<^verbatim>\<open>pages\<close>, which the listing reads with \<^verbatim>\<open>.get\<close>; \<open>None\<close> is a missing key. Every
  call reads the object it is given with the keys it expects, whatever else the object
  holds. \<open>NotJson\<close> is a body that is no JSON object: \<^verbatim>\<open>r.json()\<close> raises its decoding
  error, or the first \<^verbatim>\<open>.get\<close> on the decoded value raises; this is the exception
  \<open>BadResponseBody\<close> below, which is no \<^verbatim>\<open>requests.HTTPError\<close>.
\<close>

datatype body =
  JsonObject remote_dept "remote_dept list option" "int option"
| NotJson

text \<open>
  The three shapes of the service's answers: a department, a page of the listing, and a
  created user.
\<close>

abbreviation DeptObject :: "remote_dept \<Rightarrow> body" where
  "DeptObject d \<equiv> JsonObject d None None"

abbreviation DeptPage :: "remote_dept list option \<Rightarrow> int option \<Rightarrow> body" where
  "DeptPage departments pages \<equiv>
     JsonObject \<lparr>rd_id = None, rd_externalId = None, rd_name = None\<rparr> departments pages"

abbreviation UserObject :: "rid option \<Rightarrow> body" where
  "UserObject i \<equiv> JsonObject \<lparr>rd_id = i, rd_externalId = None, rd_name = None\<rparr> None None"

record response =
  status_code :: nat
  body :: body

text \<open>
  A call of the \<^verbatim>\<open>requests\<close> session returns the response whatever its status; it raises
  only when no response arrives. \<^verbatim>\<open>requests.HTTPError\<close> is raised by
  \<^verbatim>\<open>raise_for_status\<close> alone.
\<close>

datatype transport_result = Resp response | ConnFail

datatype value_error =
  CycleInHierarchy
| DepartmentNotFound string string
| MissingRequiredField nat string
| DuplicateExternalIds "string set"
datatype runtime_error = MaxRetriesExceeded | ParentNotCreated string string

datatype py_exn =
  ValueError value_error
| RuntimeError runtime_error
| HTTPError "nat option"
| ConnectionError
| BadResponseBody
| KeyError string

datatype event = Sent request | Slept real

text \<open>
  The state of a run: the remote service (of any type \<open>'w\<close>, driven by the function
  \<open>http\<close> below), the global \<^verbatim>\<open>DEPT_CACHE\<close>, and the trace of requests sent and of
  \<^verbatim>\<open>time.sleep\<close> calls.
\<close>

record 'w state =
  world :: 'w
  DEPT_CACHE :: "remote_dept list"
  log :: "event list"

type_synonym 'w http = "request \<Rightarrow> 'w \<Rightarrow> transport_result \<times> 'w"

definition send :: "'w http \<Rightarrow> request \<Rightarrow> 'w state \<Rightarrow> (py_exn + response) \<times> 'w state" where
  "send http rq st =
     (case http rq (world st) of
        (res, w') \<Rightarrow>
          ((case res of Resp r \<Rightarrow> Inr r | ConnFail \<Rightarrow> Inl ConnectionError),
           st\<lparr>world := w', log := log st @ [Sent rq]\<rparr>))"

definition sleep :: "real \<Rightarrow> 'w state \<Rightarrow> 'w state" where
  "sleep seconds st = st\<lparr>log := log st @ [Slept seconds]\<rparr>"

definition raise_for_status :: "response \<Rightarrow> py_exn + unit" where
  "raise_for_status r =
     (if 400 \<le> status_code r \<and> status_code r < 600
      then Inl (HTTPError (Some (status_code r))) else Inr ())"

text \<open>\<^verbatim>\<open>d["id"]\<close>.\<close>

definition getitem_id :: "remote_dept \<Rightarrow> py_exn + rid" where
  "getitem_id d = (case rd_id d of None \<Rightarrow> Inl (KeyError ''id'') | Some i \<Rightarrow> Inr i)"

section \<open>backoff_retry\<close>

text \<open>
  \<^verbatim>\<open>e.response is not None and e.response.status_code in (429, 500, 502, 503, 504)\<close>,
  for an exception \<open>e\<close> that the \<^verbatim>\<open>except requests.HTTPError\<close> clause catches.
\<close>

fun transient :: "py_exn \<Rightarrow> bool" where
  "transient (HTTPError (Some code)) = (code \<in> {429, 500, 502, 503, 504})"
| "transient _ = False"

fun backoff_attempts ::
  "('w state \<Rightarrow> (py_exn + 'a) \<times> 'w state) \<Rightarrow> real \<Rightarrow> nat list \<Rightarrow> 'w state
     \<Rightarrow> (py_exn + 'a) \<times> 'w state" where
  "backoff_attempts fn base [] st = (Inl (RuntimeError MaxRetriesExceeded), st)"
| "backoff_attempts fn base (i # is) st =
     (case fn st of
        (Inr v, st') \<Rightarrow> (Inr v, st')
      | (Inl e, st') \<Rightarrow>
          if transient e then backoff_attempts fn base is (sleep (base * 2 ^ i) st')
          else (Inl e, st'))"

definition backoff_retry ::
  "('w state \<Rightarrow> (py_exn + 'a) \<times> 'w state) \<Rightarrow> nat \<Rightarrow> real \<Rightarrow> 'w state
     \<Rightarrow> (py_exn + 'a) \<times> 'w state" where
  "backoff_retry fn retries base st = backoff_attempts fn base [0..<retries] st"

section \<open>The department cache\<close>

text \<open>
  \<^verbatim>\<open>list_all_departments\<close>: the \<^verbatim>\<open>while True\<close> loop ends when the service reports no
  further page, so it need not end: \<open>None\<close> is the run that never returns. The body is
  read with \<^verbatim>\<open>data.get("departments", [])\<close> and \<^verbatim>\<open>data.get("pages", 1)\<close>: any JSON object
  without these keys is an empty last page.
\<close>

partial_function (option) list_pages ::
  "'w http \<Rightarrow> int \<Rightarrow> remote_dept list \<Rightarrow> 'w state
     \<Rightarrow> ((py_exn + remote_dept list) \<times> 'w state) option" where
  "list_pages http page result st =
     (case backoff_retry (send http (ListDepartments page 100)) 10 1 st of
        (Inl e, st1) \<Rightarrow> Some (Inl e, st1)
      | (Inr r, st1) \<Rightarrow>
          (case raise_for_status r of
             Inl e \<Rightarrow> Some (Inl e, st1)
           | Inr _ \<Rightarrow>
               (case body r of
                  NotJson \<Rightarrow> Some (Inl BadResponseBody, st1)
                | JsonObject _ departments pages \<Rightarrow>
                    (let result' = result @ (case departments of None \<Rightarrow> [] | Some ds \<Rightarrow> ds)
                     in if (case pages of None \<Rightarrow> 1 | Some p \<Rightarrow> p) \<le> page
                        then Some (Inr result', st1)
                        else list_pages http (page + 1) result' st1))))"

definition list_all_departments ::
  "'w http \<Rightarrow> 'w state \<Rightarrow> ((py_exn + remote_dept list) \<times> 'w state) option" where
  "list_all_departments http st = list_pages http 1 [] st"

definition refresh_dept_cache ::
  "'w http \<Rightarrow> 'w state \<Rightarrow> ((py_exn + unit) \<times> 'w state) option" where
  "refresh_dept_cache http st =
     (case list_all_departments http st of
        None \<Rightarrow> None
      | Some (Inl e, st') \<Rightarrow> Some (Inl e, st')
      | Some (Inr departments, st') \<Rightarrow> Some (Inr (), st'\<lparr>DEPT_CACHE := departments\<rparr>))"

fun find_department_by_external_id :: "remote_dept list \<Rightarrow> string \<Rightarrow> remote_dept option" where
  "find_department_by_external_id [] ext = None"
| "find_department_by_external_id (d # cache) ext =
     (if (case rd_externalId d of None \<Rightarrow> [] | Some s \<Rightarrow> s) = ext then Some d
      else find_department_by_external_id cache ext)"

fun find_department_by_name :: "remote_dept list \<Rightarrow> string \<Rightarrow> remote_dept option" where
  "find_department_by_name [] nm = None"
| "find_department_by_name (d # cache) nm =
     (if rd_name d = Some nm then Some d else find_department_by_name cache nm)"

section \<open>ensure_department\<close>

text \<open>
  The loop that overwrites the cache after an update (lines 107-110): the first entry whose
  \<^verbatim>\<open>id\<close> is the one looked for is replaced, and the loop stops. \<^verbatim>\<open>dept["id"]\<close> raises at
  an entry without the key that the loop meets before; the cache is then as it was.
\<close>

fun overwrite_by_id :: "rid \<Rightarrow> remote_dept \<Rightarrow> remote_dept list \<Rightarrow> py_exn + remote_dept list" where
  "overwrite_by_id i updated [] = Inr []"
| "overwrite_by_id i updated (dept # cache) =
     (case getitem_id dept of
        Inl e \<Rightarrow> Inl e
      | Inr j \<Rightarrow>
          if j = i then Inr (updated # cache)
          else (case overwrite_by_id i updated cache of
                  Inl e \<Rightarrow> Inl e
                | Inr cache' \<Rightarrow> Inr (dept # cache')))"

text \<open>
  The two request bodies of \<^verbatim>\<open>ensure_department\<close>: \<^verbatim>\<open>update_payload\<close> (lines 91-95) and
  \<^verbatim>\<open>payload\<close> (lines 117-126). A key guarded by \<^verbatim>\<open>if label:\<close> is present iff the value
  is truthy.
\<close>

definition patch_payload :: "string \<Rightarrow> string option \<Rightarrow> string option \<Rightarrow> update_payload" where
  "patch_payload ext label description =
     \<lparr>up_externalId = ext, up_label = or_None label, up_description = or_None description\<rparr>"

definition post_payload ::
  "string \<Rightarrow> string \<Rightarrow> rid option \<Rightarrow> string option \<Rightarrow> string option \<Rightarrow> create_payload" where
  "post_payload nm ext parent_id label description =
     \<lparr>cp_name = nm, cp_externalId = ext,
      cp_parentId = (case parent_id of None \<Rightarrow> None
                     | Some p \<Rightarrow> if truthy_id p then Some p else None),
      cp_label = or_None label, cp_description = or_None description\<rparr>"

text \<open>
  Lines 86-115, the adoption of a department found by name. The result \<open>None\<close> is the fall
  through to the creation below: no department of that name, one that has an
  \<^verbatim>\<open>externalId\<close>, or a \<^verbatim>\<open>requests.HTTPError\<close> caught by the \<^verbatim>\<open>except\<close> clause. Any other
  exception leaves the function: the \<^verbatim>\<open>KeyError\<close> of \<^verbatim>\<open>existing_by_name['id']\<close> before the
  request is sent, the error of a body that is no JSON object, the \<^verbatim>\<open>KeyError\<close> of the
  loop over the cache, and the \<^verbatim>\<open>KeyError\<close> of \<^verbatim>\<open>updated["id"]\<close>, which is read after the
  cache has been overwritten.
\<close>

definition adopt_by_name ::
  "'w http \<Rightarrow> string \<Rightarrow> string \<Rightarrow> string option \<Rightarrow> string option \<Rightarrow> 'w state
     \<Rightarrow> (py_exn + rid) option \<times> 'w state" where
  "adopt_by_name http nm ext label description st =
     (let existing_by_name = find_department_by_name (DEPT_CACHE st) nm
      in if truthy existing_by_name \<and> or_None (rd_externalId (the existing_by_name)) = None
         then
           (let update_payload = patch_payload ext label description
            in case getitem_id (the existing_by_name) of
                 Inl e \<Rightarrow> (Some (Inl e), st)
               | Inr i \<Rightarrow>
                   (case backoff_retry (send http (PatchDepartment i update_payload)) 10 1 st of
                      (Inl e, st1) \<Rightarrow>
                        (case e of HTTPError _ \<Rightarrow> (None, st1) | _ \<Rightarrow> (Some (Inl e), st1))
                    | (Inr r, st1) \<Rightarrow>
                        (case raise_for_status r of
                           Inl e \<Rightarrow> (None, st1)
                         | Inr _ \<Rightarrow>
                             (case body r of
                                NotJson \<Rightarrow> (Some (Inl BadResponseBody), st1)
                              | JsonObject updated _ _ \<Rightarrow>
                                  (let updated' = updated\<lparr>rd_externalId := Some ext\<rparr>
                                   in case overwrite_by_id i updated' (DEPT_CACHE st1) of
                                        Inl e \<Rightarrow> (Some (Inl e), st1)
                                      | Inr cache \<Rightarrow>
                                          (Some (getitem_id updated'),
                                           st1\<lparr>DEPT_CACHE := cache\<rparr>))))))
         else (None, st))"

text \<open>
  Lines 141-147: what follows a create response once the 409 case is passed. The body is
  stamped and appended to the cache before \<^verbatim>\<open>created["id"]\<close> is read.
\<close>

definition store_created ::
  "response \<Rightarrow> string \<Rightarrow> 'w state \<Rightarrow> ((py_exn + rid) \<times> 'w state) option" where
  "store_created r ext st =
     (case raise_for_status r of
        Inl e \<Rightarrow> Some (Inl e, st)
      | Inr _ \<Rightarrow>
          (case body r of
             NotJson \<Rightarrow> Some (Inl BadResponseBody, st)
           | JsonObject created _ _ \<Rightarrow>
               (let created' = created\<lparr>rd_externalId := Some ext\<rparr>
                in Some (getitem_id created', st\<lparr>DEPT_CACHE := DEPT_CACHE st @ [created']\<rparr>))))"

text \<open>
  Lines 117-153, the creation. The \<^verbatim>\<open>except requests.HTTPError\<close> clause prints and
  re-raises, so every exception leaves the function as it is.
\<close>

definition create_department ::
  "'w http \<Rightarrow> string \<Rightarrow> string \<Rightarrow> rid option \<Rightarrow> string option \<Rightarrow> string option \<Rightarrow> 'w state
     \<Rightarrow> ((py_exn + rid) \<times> 'w state) option" where
  "create_department http nm ext parent_id label description st =
     (let payload = post_payload nm ext parent_id label description
      in case backoff_retry (send http (PostDepartment payload)) 10 1 st of
           (Inl e, st1) \<Rightarrow> Some (Inl e, st1)
         | (Inr r, st1) \<Rightarrow>
             if status_code r = 409
             then (case refresh_dept_cache http st1 of
                     None \<Rightarrow> None
                   | Some (Inl e, st2) \<Rightarrow> Some (Inl e, st2)
                   | Some (Inr _, st2) \<Rightarrow>
                       (let existing = find_department_by_external_id (DEPT_CACHE st2) ext
                        in if truthy existing then Some (getitem_id (the existing), st2)
                           else (case raise_for_status r of
                                   Inl e \<Rightarrow> Some (Inl e, st2)
                                 | Inr _ \<Rightarrow> store_created r ext st2)))
             else store_created r ext st1)"

definition ensure_department ::
  "'w http \<Rightarrow> string \<Rightarrow> string \<Rightarrow> rid option \<Rightarrow> string option \<Rightarrow> string option \<Rightarrow> 'w state
     \<Rightarrow> ((py_exn + rid) \<times> 'w state) option" where
  "ensure_department http nm ext parent_id label description st =
     (let existing =
            (if ext \<noteq> [] then find_department_by_external_id (DEPT_CACHE st) ext else None)
      in if truthy existing then Some (getitem_id (the existing), st)
         else (case adopt_by_name http nm ext label description st of
                 (Some res, st1) \<Rightarrow> Some (res, st1)
               | (None, st1) \<Rightarrow> create_department http nm ext parent_id label description st1))"

section \<open>The second half of build_hierarchy_and_create\<close>

text \<open>Lines 186-192: the parent id handed to \<^verbatim>\<open>ensure_department\<close>, or the RuntimeError.\<close>

definition resolve_parent ::
  "(string \<rightharpoonup> dept_row) \<Rightarrow> (string \<rightharpoonup> rid) \<Rightarrow> string \<Rightarrow> dept_row \<Rightarrow> py_exn + rid option" where
  "resolve_parent by_ext ext_to_id ext r =
     (case or_None (parent_external_id r) of
        None \<Rightarrow> Inr None
      | Some pe \<Rightarrow>
          (case ext_to_id pe of
             Some parent_id \<Rightarrow> Inr (Some parent_id)
           | None \<Rightarrow>
               if by_ext pe \<noteq> None then Inl (RuntimeError (ParentNotCreated pe ext))
               else Inr None))"

fun create_in_order ::
  "'w http \<Rightarrow> (string \<rightharpoonup> dept_row) \<Rightarrow> string list \<Rightarrow> (string \<rightharpoonup> rid) \<Rightarrow> 'w state
     \<Rightarrow> ((py_exn + (string \<rightharpoonup> rid)) \<times> 'w state) option" where
  "create_in_order http by_ext [] ext_to_id st = Some (Inr ext_to_id, st)"
| "create_in_order http by_ext (ext # order) ext_to_id st =
     (case by_ext ext of
        None \<Rightarrow> Some (Inl (KeyError ext), st)
      | Some r \<Rightarrow>
          (case resolve_parent by_ext ext_to_id ext r of
             Inl e \<Rightarrow> Some (Inl e, st)
           | Inr parent_id \<Rightarrow>
               (case ensure_department http (dept_name r) (external_id r) parent_id
                       (or_None (dept_label r)) (or_None (dept_description r)) st of
                  None \<Rightarrow> None
                | Some (Inl e, st') \<Rightarrow> Some (Inl e, st')
                | Some (Inr dep_id, st') \<Rightarrow>
                    create_in_order http by_ext order (ext_to_id(ext \<mapsto> dep_id)) st')))"

definition build_hierarchy_and_create ::
  "'w http \<Rightarrow> dept_row list \<Rightarrow> 'w state
     \<Rightarrow> ((py_exn + (string \<rightharpoonup> rid)) \<times> 'w state) option" where
  "build_hierarchy_and_create http dept_rows st =
     (let order = kahn_order dept_rows
      in if length order \<noteq> length dept_rows
         then Some (Inl (ValueError CycleInHierarchy), st)
         else create_in_order http (by_ext_of dept_rows) order Map.empty st)"

section \<open>Users\<close>

text \<open>
  \<^verbatim>\<open>str(v).lower()\<close>. Strings are byte lists here; \<open>lower\<close> maps the ASCII capitals and
  leaves every other byte, which agrees with Python on whether the result is \<^verbatim>\<open>"true"\<close>:
  no character outside ASCII has one of t, r, u, e as its lower case.
\<close>

definition lower_char :: "char \<Rightarrow> char" where
  "lower_char c =
     (let n = (of_char c :: nat) in if 65 \<le> n \<and> n \<le> 90 then char_of (n + 32) else c)"

definition lower :: "string \<Rightarrow> string" where
  "lower s = map lower_char s"

fun py_str :: "py_value \<Rightarrow> string" where
  "py_str PyNone = ''None''"
| "py_str (PyStr s) = s"

text \<open>\<^verbatim>\<open>u.get(key, default)\<close>: the default stands in for a missing key only.\<close>

definition get_default :: "py_value option \<Rightarrow> string \<Rightarrow> py_value" where
  "get_default field dflt = (case field of None \<Rightarrow> PyStr dflt | Some v \<Rightarrow> v)"

text \<open>Lines 209-223, the body of the create-user request.\<close>

definition user_body :: "user_row \<Rightarrow> rid \<Rightarrow> user_payload" where
  "user_body u dept_id =
     \<lparr>ub_nickname = u_nickname u,
      ub_departmentId = dept_id,
      ub_first = u_first u,
      ub_last = u_last u,
      ub_middle = get_default (u_middle u) [],
      ub_position = get_default (u_position u) [],
      ub_language = get_default (u_language u) ''ru'',
      ub_timezone = get_default (u_timezone u) ''Europe/Moscow'',
      ub_externalId = get_default (u_externalId u) [],
      ub_password = get_default (u_password u) [],
      ub_passwordChangeRequired =
        (lower (py_str (get_default (u_passwordChangeRequired u) ''true'')) = ''true'')\<rparr>"

datatype user_result = Created string "rid option" | Exists string

definition create_user ::
  "'w http \<Rightarrow> user_row \<Rightarrow> (string \<rightharpoonup> rid) \<Rightarrow> 'w state \<Rightarrow> (py_exn + user_result) \<times> 'w state" where
  "create_user http u ext_to_id st =
     (case ext_to_id (u_dept_external_id u) of
        None \<Rightarrow> (Inl (KeyError (u_dept_external_id u)), st)
      | Some dept_id \<Rightarrow>
          (case backoff_retry (send http (PostUser (user_body u dept_id))) 10 1 st of
             (Inl e, st1) \<Rightarrow> (Inl e, st1)
           | (Inr r, st1) \<Rightarrow>
               if status_code r = 409 then (Inr (Exists (u_nickname u)), st1)
               else (case raise_for_status r of
                       Inl e \<Rightarrow> (Inl e, st1)
                     | Inr _ \<Rightarrow>
                         (case body r of
                            NotJson \<Rightarrow> (Inl BadResponseBody, st1)
                          | JsonObject d _ _ \<Rightarrow> (Inr (Created (u_nickname u) (rd_id d)), st1)))))"

text \<open>The \<^verbatim>\<open>for u in user_rows\<close> loop of the main block (lines 339-346).\<close>

fun provision_users ::
  "'w http \<Rightarrow> (string \<rightharpoonup> rid) \<Rightarrow> user_row list \<Rightarrow> user_result list \<Rightarrow> 'w state
     \<Rightarrow> (py_exn + user_result list) \<times> 'w state" where
  "provision_users http ext_to_id [] results st = (Inr results, st)"
| "provision_users http ext_to_id (u # user_rows) results st =
     (if ext_to_id (u_dept_external_id u) = None
      then (Inl (ValueError (DepartmentNotFound (u_dept_external_id u) (u_nickname u))), st)
      else (case create_user http u ext_to_id st of
              (Inl e, st1) \<Rightarrow> (Inl e, st1)
            | (Inr res, st1) \<Rightarrow>
                provision_users http ext_to_id user_rows (results @ [res]) (sleep (1 / 2) st1)))"

section \<open>validate_departments_csv\<close>

text \<open>
  The check that runs before the department step: every row has a truthy
  \<^verbatim>\<open>external_id\<close> and \<^verbatim>\<open>name\<close> (rows are numbered from 2), and no external id
  occurs twice.
\<close>

fun check_required :: "nat \<Rightarrow> dept_row list \<Rightarrow> py_exn + unit" where
  "check_required i [] = Inr ()"
| "check_required i (row # dept_rows) =
     (if external_id row = [] then Inl (ValueError (MissingRequiredField i ''external_id''))
      else if dept_name row = [] then Inl (ValueError (MissingRequiredField i ''name''))
      else check_required (Suc i) dept_rows)"

definition validate_departments_csv :: "dept_row list \<Rightarrow> py_exn + unit" where
  "validate_departments_csv dept_rows =
     (case check_required 2 dept_rows of
        Inl e \<Rightarrow> Inl e
      | Inr _ \<Rightarrow>
          (let external_ids = map external_id dept_rows;
               duplicates = set (filter (\<lambda>x. 1 < count_list external_ids x) external_ids)
           in if duplicates \<noteq> {} then Inl (ValueError (DuplicateExternalIds duplicates))
              else Inr ()))"

section \<open>The resolution graph\<close>

text \<open>
  The parent of a row that the ordering has to respect: the truthy
  \<^verbatim>\<open>parent_external_id\<close>, when it is the external id of a row of the input. The edges of
  the graph run from such a parent to the row.
\<close>

definition in_set_parent :: "dept_row list \<Rightarrow> dept_row \<Rightarrow> string option" where
  "in_set_parent dept_rows r =
     (case or_None (parent_external_id r) of
        None \<Rightarrow> None
      | Some pe \<Rightarrow> if pe \<in> external_id ` set dept_rows then Some pe else None)"

definition dept_edges :: "dept_row list \<Rightarrow> (string \<times> string) set" where
  "dept_edges dept_rows =
     {(pe, external_id r) | pe r. r \<in> set dept_rows \<and> in_set_parent dept_rows r = Some pe}"

text \<open>The position of the first occurrence of an element of a list.\<close>

definition pos :: "'a list \<Rightarrow> 'a \<Rightarrow> nat" where
  "pos xs x = length (takeWhile (\<lambda>y. y \<noteq> x) xs)"

text \<open>
  The children of an id, in input order, and the number of rows of an id whose parent is
  not yet in the order: what \<^verbatim>\<open>graph\<close> and \<^verbatim>\<open>indeg\<close> hold while the loop runs.
\<close>

definition children :: "dept_row list \<Rightarrow> string \<Rightarrow> string list" where
  "children dept_rows u = map external_id (filter (\<lambda>r. in_set_parent dept_rows r = Some u) dept_rows)"

definition remaining :: "dept_row list \<Rightarrow> string list \<Rightarrow> string \<Rightarrow> nat" where
  "remaining dept_rows order v =
     length (filter (\<lambda>r. external_id r = v \<and>
                          (\<exists>pe. in_set_parent dept_rows r = Some pe \<and> pe \<notin> set order)) dept_rows)"

text \<open>Every parent in the order stands before its child.\<close>

definition topo :: "dept_row list \<Rightarrow> string list \<Rightarrow> bool" where
  "topo dept_rows order \<longleftrightarrow>
     (\<forall>r\<in>set dept_rows. \<forall>pe. in_set_parent dept_rows r = Some pe \<longrightarrow>
        external_id r \<in> set order \<longrightarrow>
        pe \<in> set order \<and> pos order pe < pos order (external_id r))"

text \<open>The invariant of the \<^verbatim>\<open>while q\<close> loop, and what it leaves when the queue is empty.\<close>

definition kahn_inv :: "dept_row list \<Rightarrow> indeg_t \<Rightarrow> string list \<Rightarrow> string list \<Rightarrow> bool" where
  "kahn_inv dept_rows indeg q order \<longleftrightarrow>
     distinct (order @ q)
     \<and> set (order @ q) = {v \<in> external_id ` set dept_rows. dd_get indeg v = 0}
     \<and> (\<forall>v. dd_get indeg v = int (remaining dept_rows order v))
     \<and> topo dept_rows order"

definition kahn_post :: "dept_row list \<Rightarrow> string list \<Rightarrow> bool" where
  "kahn_post dept_rows order \<longleftrightarrow>
     distinct order
     \<and> set order = {v \<in> external_id ` set dept_rows. remaining dept_rows order v = 0}
     \<and> topo dept_rows order"

section \<open>A service that holds the pages of its listing\<close>


section \<open>Concrete services and inputs\<close>

text \<open>
  A service that answers the requests it receives with the responses of a script, one
  after the other, whatever the request; once the script is used up no response arrives.
\<close>

definition scripted :: "response list http" where
  "scripted rq w = (case w of [] \<Rightarrow> (ConnFail, []) | r # rs \<Rightarrow> (Resp r, rs))"

definition sales_legacy :: remote_dept where
  "sales_legacy = \<lparr>rd_id = Some (IntId 2), rd_externalId = None, rd_name = Some ''Sales''\<rparr>"
definition sales_managed :: remote_dept where
  "sales_managed = \<lparr>rd_id = Some (IntId 1), rd_externalId = Some ''OLD'', rd_name = Some ''Sales''\<rparr>"
definition sales_new :: remote_dept where
  "sales_new = \<lparr>rd_id = Some (IntId 3), rd_externalId = None, rd_name = Some ''Sales''\<rparr>"
definition st_of :: "response list \<Rightarrow> remote_dept list \<Rightarrow> response list state" where
  "st_of rs cache = \<lparr>world = rs, DEPT_CACHE = cache, log = []\<rparr>"

text \<open>
  A remote operation as \<^verbatim>\<open>backoff_retry\<close> expects it: it raises the \<^verbatim>\<open>HTTPError\<close> of an
  error status itself.
\<close>

definition raising_call :: "response list state \<Rightarrow> (py_exn + response) \<times> response list state" where
  "raising_call st =
     (case world st of
        [] \<Rightarrow> (Inl ConnectionError, st)
      | r # rs \<Rightarrow>
          ((case raise_for_status r of Inl e \<Rightarrow> Inl e | Inr _ \<Rightarrow> Inr r), st\<lparr>world := rs\<rparr>))"

definition r503 :: response where
  "r503 = \<lparr>status_code = 503, body = NotJson\<rparr>"

definition r200 :: response where
  "r200 = \<lparr>status_code = 200, body = NotJson\<rparr>"

definition alice :: user_row where
  "alice = \<lparr>u_nickname = ''alice'', u_first = ''Alice'', u_last = ''A'',
            u_dept_external_id = ''D1'', u_middle = None, u_position = None, u_language = None,
            u_timezone = None, u_externalId = None, u_password = None,
            u_passwordChangeRequired = None\<rparr>"

definition bob :: user_row where
  "bob = \<lparr>u_nickname = ''bob'', u_first = ''Bob'', u_last = ''B'',
          u_dept_external_id = ''D1'', u_middle = Some PyNone, u_position = Some (PyStr ''dev''),
          u_language = Some (PyStr ''en''), u_timezone = Some (PyStr []), u_externalId = None,
          u_password = Some (PyStr ''pw''), u_passwordChangeRequired = Some (PyStr ''TRUE'')\<rparr>"

definition dept :: "string \<Rightarrow> string option \<Rightarrow> dept_row" where
  "dept ext parent = \<lparr>external_id = ext, dept_name = ''Dept '' @ ext, parent_external_id = parent,
                       dept_label = None, dept_description = None\<rparr>"

definition abc_rows :: "dept_row list" where
  "abc_rows = [dept ''C'' (Some ''B''), dept ''B'' (Some ''A''), dept ''A'' (Some [])]"

definition xy_rows :: "dept_row list" where
  "xy_rows = [dept ''X'' (Some ''Y''), dept ''Y'' (Some ''X'')]"

definition remote :: "int \<Rightarrow> string \<Rightarrow> remote_dept" where
  "remote i ext = \<lparr>rd_id = Some (IntId i), rd_externalId = Some ext, rd_name = Some (''Dept '' @ ext)\<rparr>"

definition abc_cache :: "remote_dept list" where
  "abc_cache = [remote 1 ''A'', remote 2 ''B'', remote 3 ''C'']"

definition px_rows :: "dept_row list" where
  "px_rows = [dept ''X'' (Some ''P'')]"

section \<open>The resolution order\<close>

subsection \<open>The dictionaries after the first loop\<close>

text \<open>
  What \<^verbatim>\<open>by_ext\<close>, \<^verbatim>\<open>graph\<close> and \<^verbatim>\<open>indeg\<close> hold when the loop over the rows is done:
  the children of every id in input order, and for every id the number of its rows with a
  parent in the input. The keys of \<^verbatim>\<open>indeg\<close> are the external ids, each once.
\<close>

lemma dd_get_add: "dd_get (dd_add indeg k d) v = (if v = k then dd_get indeg k + d else dd_get indeg v)"
  by (simp add: dd_get_def dd_add_def update_conv')

lemma keys_dd_add: "fst ` set (dd_add indeg k d) = insert k (fst ` set indeg)"
  by (simp add: dd_add_def dom_update)

lemma distinct_dd_add: "distinct (map fst indeg) \<Longrightarrow> distinct (map fst (dd_add indeg k d))"
  by (simp add: dd_add_def distinct_update)

lemma dd_get_setdefault: "dd_get (dd_setdefault indeg k 0) v = dd_get indeg v"
  by (simp add: dd_get_def dd_setdefault_def update_conv' split: option.splits)

lemma keys_dd_setdefault: "fst ` set (dd_setdefault indeg k d) = insert k (fst ` set indeg)"
  by (auto simp: dd_setdefault_def dom_update map_of_eq_None_iff split: option.splits
      dest: map_of_SomeD intro: rev_image_eqI)

lemma distinct_dd_setdefault:
  "distinct (map fst indeg) \<Longrightarrow> distinct (map fst (dd_setdefault indeg k d))"
  by (simp add: dd_setdefault_def distinct_update split: option.splits)

lemma by_ext_fold:
  "fold (\<lambda>r m. m(external_id r \<mapsto> r)) dept_rows m0 k = None \<longleftrightarrow>
     k \<notin> external_id ` set dept_rows \<and> m0 k = None"
  by (induction dept_rows arbitrary: m0) auto

lemma by_ext_dom: "by_ext_of dept_rows k = None \<longleftrightarrow> k \<notin> external_id ` set dept_rows"
  by (simp add: by_ext_of_def by_ext_fold)

lemma by_ext_fold_Some:
  "fold (\<lambda>r m. m(external_id r \<mapsto> r)) dept_rows m0 k = Some r \<Longrightarrow>
     (r \<in> set dept_rows \<and> external_id r = k) \<or> m0 k = Some r"
proof (induction dept_rows arbitrary: m0)
  case Nil
  then show ?case by simp
next
  case (Cons a dept_rows)
  from Cons.prems have "fold (\<lambda>r m. m(external_id r \<mapsto> r)) dept_rows (m0(external_id a \<mapsto> a)) k = Some r"
    by (simp only: fold.simps comp_apply)
  from Cons.IH [OF this] show ?case
    by (auto split: if_splits)
qed

lemma by_ext_Some: "by_ext_of dept_rows k = Some r \<Longrightarrow> r \<in> set dept_rows \<and> external_id r = k"
  using by_ext_fold_Some [of dept_rows Map.empty k r] by (simp add: by_ext_of_def)

lemma build_graph_step_spec:
  assumes "build_graph_step (by_ext_of dept_rows) r (g0, i0) = (g1, i1)"
  shows "(\<forall>u. graph_get g1 u =
            graph_get g0 u @ (if in_set_parent dept_rows r = Some u then [external_id r] else []))
       \<and> (\<forall>v. dd_get i1 v =
            dd_get i0 v + (if external_id r = v \<and> in_set_parent dept_rows r \<noteq> None then 1 else 0))
       \<and> fst ` set i1 = insert (external_id r) (fst ` set i0)
       \<and> (distinct (map fst i0) \<longrightarrow> distinct (map fst i1))"
proof (cases "in_set_parent dept_rows r")
  case None
  then have "g1 = g0" "i1 = dd_setdefault i0 (external_id r) 0"
    using assms
    by (auto simp: build_graph_step_def in_set_parent_def by_ext_dom split: option.splits if_splits)
  with None show ?thesis
    by (simp add: dd_get_setdefault keys_dd_setdefault distinct_dd_setdefault)
next
  case (Some pe)
  then have "g1 = g0(pe \<mapsto> graph_get g0 pe @ [external_id r])" "i1 = dd_add i0 (external_id r) 1"
    using assms
    by (auto simp: build_graph_step_def in_set_parent_def by_ext_dom split: option.splits if_splits)
  with Some show ?thesis
    by (auto simp: dd_get_add keys_dd_add distinct_dd_add graph_get_def)
qed

lemma build_graph_fold:
  assumes "fold (build_graph_step (by_ext_of dept_rows)) rs (g0, i0) = (g, i)"
  shows "(\<forall>u. graph_get g u =
            graph_get g0 u @ map external_id (filter (\<lambda>r. in_set_parent dept_rows r = Some u) rs))
       \<and> (\<forall>v. dd_get i v = dd_get i0 v +
            int (length (filter (\<lambda>r. external_id r = v \<and> in_set_parent dept_rows r \<noteq> None) rs)))
       \<and> fst ` set i = external_id ` set rs \<union> fst ` set i0
       \<and> (distinct (map fst i0) \<longrightarrow> distinct (map fst i))"
  using assms
proof (induction rs arbitrary: g0 i0)
  case Nil
  then show ?case by simp
next
  case (Cons r rs)
  obtain g1 i1 where s: "build_graph_step (by_ext_of dept_rows) r (g0, i0) = (g1, i1)"
    by (cases "build_graph_step (by_ext_of dept_rows) r (g0, i0)")
  with Cons.prems have f: "fold (build_graph_step (by_ext_of dept_rows)) rs (g1, i1) = (g, i)"
    by simp
  from Cons.IH [OF f] build_graph_step_spec [OF s] show ?case
    by auto
qed

subsection \<open>The loop over the children of a node\<close>

text \<open>
  When no child is counted more often than its in-degree allows, the loop lowers the
  in-degree of every child by the number of its occurrences and appends to the queue,
  once each, the children whose in-degree has reached zero.
\<close>

lemma count_list_map: "count_list (map f xs) v = length (filter (\<lambda>x. f x = v) xs)"
  by (induction xs) auto

lemma count_children:
  "count_list (children dept_rows u) v =
     length (filter (\<lambda>r. external_id r = v \<and> in_set_parent dept_rows r = Some u) dept_rows)"
  by (simp add: children_def count_list_map conj_commute)

lemma relax_eq:
  "relax c (indeg, q) =
     (dd_add indeg c (- 1), if dd_get indeg c = 1 then q @ [c] else q)"
  by (simp add: relax_def Let_def dd_get_add)

lemma fold_relax_spec:
  assumes "\<forall>v\<in>set cs. int (count_list cs v) \<le> dd_get indeg v"
    and "fold relax cs (indeg, q) = (indeg', q')"
  shows "(\<forall>v. dd_get indeg' v = dd_get indeg v - int (count_list cs v))
       \<and> (\<exists>new. q' = q @ new \<and> distinct new
              \<and> set new = {v \<in> set cs. dd_get indeg v = int (count_list cs v)})"
  using assms
proof (induction cs arbitrary: indeg q)
  case Nil
  then show ?case by simp
next
  case (Cons c cs)
  let ?i1 = "dd_add indeg c (- 1)"
  let ?q1 = "if dd_get indeg c = 1 then q @ [c] else q"
  have pre: "\<forall>v\<in>set cs. int (count_list cs v) \<le> dd_get ?i1 v"
    using Cons.prems(1) by (auto simp: dd_get_add)
  have f: "fold relax cs (?i1, ?q1) = (indeg', q')"
    using Cons.prems(2) by (simp add: relax_eq)
  from Cons.IH [OF pre f] obtain new where
    vals: "\<forall>v. dd_get indeg' v = dd_get ?i1 v - int (count_list cs v)"
    and q': "q' = ?q1 @ new" and dn: "distinct new"
    and sn: "set new = {v \<in> set cs. dd_get ?i1 v = int (count_list cs v)}"
    by blast
  have c_le: "int (count_list cs c) + 1 \<le> dd_get indeg c"
    using Cons.prems(1) by simp
  have v: "\<forall>v. dd_get indeg' v = dd_get indeg v - int (count_list (c # cs) v)"
    using vals by (simp add: dd_get_add)
  show ?case
  proof (cases "dd_get indeg c = 1")
    case True
    with c_le have c0: "count_list cs c = 0" by simp
    then have cn: "c \<notin> set cs" by (simp add: count_list_0_iff)
    have "c \<notin> set new" using sn cn by simp
    moreover have "set (c # new) = {v \<in> set (c # cs). dd_get indeg v = int (count_list (c # cs) v)}"
      using sn True c0 by (auto simp: dd_get_add)
    ultimately have "q' = q @ (c # new) \<and> distinct (c # new)
        \<and> set (c # new) = {v \<in> set (c # cs). dd_get indeg v = int (count_list (c # cs) v)}"
      using q' True dn by simp
    with v show ?thesis by blast
  next
    case False
    have "v \<in> set new \<longleftrightarrow>
            v \<in> set (c # cs) \<and> dd_get indeg v = int (count_list (c # cs) v)" for v
    proof (cases "v = c")
      case True
      have "c \<in> set new \<longleftrightarrow> c \<in> set cs \<and> dd_get indeg c - 1 = int (count_list cs c)"
        using sn by (simp add: dd_get_add)
      moreover have "c \<notin> set cs \<Longrightarrow> dd_get indeg c \<noteq> 1 + int (count_list cs c)"
        using False by (simp add: count_list_0_iff)
      ultimately show ?thesis using True by auto
    next
      case False
      then show ?thesis using sn by (simp add: dd_get_add)
    qed
    then have "set new = {v \<in> set (c # cs). dd_get indeg v = int (count_list (c # cs) v)}"
      by blast
    with q' \<open>dd_get indeg c \<noteq> 1\<close> dn v show ?thesis by auto
  qed
qed

subsection \<open>The invariant of the main loop\<close>

lemma pos_append_in: "x \<in> set xs \<Longrightarrow> pos (xs @ ys) x = pos xs x"
  by (induction xs) (auto simp: pos_def)

lemma pos_append_notin: "x \<notin> set xs \<Longrightarrow> pos (xs @ [x]) x = length xs"
  by (induction xs) (auto simp: pos_def)

lemma pos_less: "x \<in> set xs \<Longrightarrow> pos xs x < length xs"
  by (induction xs) (auto simp: pos_def)

lemma nth_pos: "x \<in> set xs \<Longrightarrow> xs ! pos xs x = x"
  by (induction xs) (auto simp: pos_def)

lemma length_filter_split:
  "length (filter P xs) = length (filter (\<lambda>x. P x \<and> Q x) xs) + length (filter (\<lambda>x. P x \<and> \<not> Q x) xs)"
  by (induction xs) auto

lemma remaining_step:
  assumes "u \<notin> set order"
  shows "remaining dept_rows order v =
           remaining dept_rows (order @ [u]) v + count_list (children dept_rows u) v"
proof -
  let ?P = "\<lambda>r. external_id r = v \<and> (\<exists>pe. in_set_parent dept_rows r = Some pe \<and> pe \<notin> set order)"
  let ?Q = "\<lambda>r. in_set_parent dept_rows r = Some u"
  have a: "(\<lambda>r. ?P r \<and> ?Q r) = (\<lambda>r. external_id r = v \<and> in_set_parent dept_rows r = Some u)"
    using assms by auto
  have b: "(\<lambda>r. ?P r \<and> \<not> ?Q r) =
      (\<lambda>r. external_id r = v \<and> (\<exists>pe. in_set_parent dept_rows r = Some pe \<and> pe \<notin> set (order @ [u])))"
    by auto
  show ?thesis
    unfolding remaining_def count_children
    by (subst length_filter_split [where Q = ?Q]) (simp only: a b add.commute)
qed

lemma children_subset: "set (children dept_rows u) \<subseteq> external_id ` set dept_rows"
  by (auto simp: children_def)

lemma kahn_inv_step:
  assumes inv: "kahn_inv dept_rows indeg (u # q) order"
    and f: "fold relax (children dept_rows u) (indeg, q) = (indeg', q')"
  shows "kahn_inv dept_rows indeg' q' (order @ [u])"
proof -
  let ?cs = "children dept_rows u"
  let ?ids = "external_id ` set dept_rows"
  from inv have d: "distinct (order @ u # q)"
    and s: "set (order @ u # q) = {v \<in> ?ids. dd_get indeg v = 0}"
    and rem: "\<forall>v. dd_get indeg v = int (remaining dept_rows order v)"
    and tp: "topo dept_rows order"
    by (simp_all add: kahn_inv_def)
  from d have u_order: "u \<notin> set order" by auto
  from s have u0: "dd_get indeg u = 0" by auto
  have pre: "\<forall>v\<in>set ?cs. int (count_list ?cs v) \<le> dd_get indeg v"
    using rem remaining_step [OF u_order, of dept_rows] by simp
  from fold_relax_spec [OF pre f] obtain new where
    vals: "\<forall>v. dd_get indeg' v = dd_get indeg v - int (count_list ?cs v)"
    and q': "q' = q @ new" and dn: "distinct new"
    and sn: "set new = {v \<in> set ?cs. dd_get indeg v = int (count_list ?cs v)}"
    by blast
  have pre': "\<And>v. int (count_list ?cs v) \<le> dd_get indeg v"
    using rem remaining_step [OF u_order, of dept_rows] by simp
  have rem': "\<forall>v. dd_get indeg' v = int (remaining dept_rows (order @ [u]) v)"
    using vals rem remaining_step [OF u_order, of dept_rows] by simp
  have cpos: "\<And>v. v \<in> set ?cs \<Longrightarrow> 0 < count_list ?cs v"
    by (metis count_list_0_iff gr0I)
  have new_pos: "\<And>v. v \<in> set new \<Longrightarrow> 0 < dd_get indeg v"
    using sn cpos by auto
  have disj: "set new \<inter> set (order @ u # q) = {}"
    using new_pos s by fastforce
  have d': "distinct ((order @ [u]) @ q')"
    using d dn disj q' by auto
  have s': "set ((order @ [u]) @ q') = {v \<in> ?ids. dd_get indeg' v = 0}"
  proof (intro set_eqI iffI)
    fix v assume "v \<in> set ((order @ [u]) @ q')"
    then consider "v \<in> set (order @ u # q)" | "v \<in> set new" using q' by auto
    then show "v \<in> {v \<in> ?ids. dd_get indeg' v = 0}"
    proof cases
      case 1
      with s have "v \<in> ?ids" "dd_get indeg v = 0" by auto
      moreover with pre' [of v] have "count_list ?cs v = 0" by simp
      ultimately show ?thesis using vals by simp
    next
      case 2
      with sn children_subset [of dept_rows u] vals show ?thesis by auto
    qed
  next
    fix v assume "v \<in> {v \<in> ?ids. dd_get indeg' v = 0}"
    then have v: "v \<in> ?ids" "dd_get indeg v = int (count_list ?cs v)" using vals by auto
    show "v \<in> set ((order @ [u]) @ q')"
    proof (cases "v \<in> set ?cs")
      case True
      with v sn q' show ?thesis by simp
    next
      case False
      then have "dd_get indeg v = 0" using v by (simp add: count_list_0_iff)
      with v s have "v \<in> set (order @ u # q)" by blast
      then show ?thesis using q' by auto
    qed
  qed
  have tp': "topo dept_rows (order @ [u])"
    unfolding topo_def
  proof (intro ballI allI impI)
    fix r pe
    assume r: "r \<in> set dept_rows" and p: "in_set_parent dept_rows r = Some pe"
      and m: "external_id r \<in> set (order @ [u])"
    show "pe \<in> set (order @ [u]) \<and> pos (order @ [u]) pe < pos (order @ [u]) (external_id r)"
    proof (cases "external_id r \<in> set order")
      case True
      with tp r p have "pe \<in> set order" "pos order pe < pos order (external_id r)"
        by (auto simp: topo_def)
      with True show ?thesis by (simp add: pos_append_in)
    next
      case False
      with m have eu: "external_id r = u" by simp
      have "remaining dept_rows order u = 0" using rem u0 by simp
      then have "pe \<in> set order"
        using r p eu by (auto simp: remaining_def filter_empty_conv)
      then show ?thesis
        using eu u_order pos_less [of pe order] by (simp add: pos_append_in pos_append_notin)
    qed
  qed
  show ?thesis
    unfolding kahn_inv_def using d' s' rem' tp' by blast
qed

lemma kahn_loop_post:
  assumes "\<forall>u. graph_get graph u = children dept_rows u"
    and "kahn_inv dept_rows indeg q order"
  shows "kahn_post dept_rows (kahn_loop graph indeg q order)"
  using assms
proof (induction graph indeg q order rule: kahn_loop.induct)
  case (1 graph indeg order)
  then show ?case by (simp add: kahn_inv_def kahn_post_def)
next
  case (2 graph indeg u q order)
  obtain indeg' q' where f: "fold relax (graph_get graph u) (indeg, q) = (indeg', q')"
    by (cases "fold relax (graph_get graph u) (indeg, q)")
  then have f': "fold relax (children dept_rows u) (indeg, q) = (indeg', q')"
    using "2.prems"(1) by simp
  have "kahn_inv dept_rows indeg' q' (order @ [u])"
    using kahn_inv_step [OF "2.prems"(2) f'] .
  from "2.IH" [OF f [symmetric] "2.prems"(1) this] show ?case
    by (simp add: f)
qed

subsection \<open>The order computed\<close>

text \<open>
  The order has no duplicates and holds external ids of the input only; an id is in the
  order iff all parents of its rows are; and a parent stands before its child. Without a
  cycle every id is reached; on a cycle no id is, and the order is shorter than the input.
\<close>

lemma initial_queue_spec:
  assumes "distinct (map fst indeg)"
  shows "distinct (initial_queue indeg)"
    and "set (initial_queue indeg) = {k \<in> fst ` set indeg. dd_get indeg k = 0}"
proof -
  show "distinct (initial_queue indeg)"
    using assms by (simp add: initial_queue_def distinct_map_filter)
  have "\<And>k v. (k, v) \<in> set indeg \<longleftrightarrow> map_of indeg k = Some v"
    using assms by simp
  then show "set (initial_queue indeg) = {k \<in> fst ` set indeg. dd_get indeg k = 0}"
    by (force simp: initial_queue_def dd_get_def)
qed

lemma build_graph_spec:
  assumes "build_graph dept_rows = (graph, indeg)"
  shows "\<forall>u. graph_get graph u = children dept_rows u"
    and "\<forall>v. dd_get indeg v = int (remaining dept_rows [] v)"
    and "fst ` set indeg = external_id ` set dept_rows"
    and "distinct (map fst indeg)"
proof -
  have r: "\<And>v. remaining dept_rows [] v =
      length (filter (\<lambda>r. external_id r = v \<and> in_set_parent dept_rows r \<noteq> None) dept_rows)"
    by (simp add: remaining_def)
  from assms have "fold (build_graph_step (by_ext_of dept_rows)) dept_rows (Map.empty, []) = (graph, indeg)"
    by (simp add: build_graph_def)
  from build_graph_fold [OF this]
  show "\<forall>u. graph_get graph u = children dept_rows u"
    and "\<forall>v. dd_get indeg v = int (remaining dept_rows [] v)"
    and "fst ` set indeg = external_id ` set dept_rows"
    and "distinct (map fst indeg)"
    by (simp_all add: r children_def graph_get_def dd_get_def)
qed

lemma kahn_order_post: "kahn_post dept_rows (kahn_order dept_rows)"
proof -
  obtain graph indeg where b: "build_graph dept_rows = (graph, indeg)"
    by (cases "build_graph dept_rows")
  note g = build_graph_spec [OF b]
  have "kahn_inv dept_rows indeg (initial_queue indeg) []"
    using g(2,3) initial_queue_spec [OF g(4)] by (simp add: kahn_inv_def topo_def)
  from kahn_loop_post [OF g(1) this] show ?thesis
    by (simp add: kahn_order_def b)
qed

lemma kahn_order_distinct: "distinct (kahn_order dept_rows)"
  using kahn_order_post [of dept_rows] by (simp add: kahn_post_def)

lemma kahn_order_subset: "set (kahn_order dept_rows) \<subseteq> external_id ` set dept_rows"
  using kahn_order_post [of dept_rows] by (auto simp: kahn_post_def)

lemma kahn_order_topo: "topo dept_rows (kahn_order dept_rows)"
  using kahn_order_post [of dept_rows] by (simp add: kahn_post_def)

lemma kahn_order_missing:
  assumes "v \<in> external_id ` set dept_rows" "v \<notin> set (kahn_order dept_rows)"
  shows "\<exists>pe. (pe, v) \<in> dept_edges dept_rows \<and> pe \<notin> set (kahn_order dept_rows)"
proof -
  from kahn_order_post [of dept_rows] assms
  have "remaining dept_rows (kahn_order dept_rows) v \<noteq> 0"
    by (auto simp: kahn_post_def)
  then show ?thesis
    by (auto simp: remaining_def filter_empty_conv dept_edges_def)
qed

lemma dept_edges_ids:
  "(p, c) \<in> dept_edges dept_rows \<Longrightarrow> p \<in> external_id ` set dept_rows \<and> c \<in> external_id ` set dept_rows"
  by (auto simp: dept_edges_def in_set_parent_def split: option.splits if_splits)

lemma finite_dept_edges: "finite (dept_edges dept_rows)"
proof (rule finite_subset)
  show "dept_edges dept_rows \<subseteq> (external_id ` set dept_rows) \<times> (external_id ` set dept_rows)"
    using dept_edges_ids by auto
qed simp

lemma kahn_order_complete:
  assumes "acyclic (dept_edges dept_rows)"
  shows "set (kahn_order dept_rows) = external_id ` set dept_rows"
proof -
  have wf: "wf (dept_edges dept_rows)"
    using finite_acyclic_wf [OF finite_dept_edges assms] .
  have "v \<in> external_id ` set dept_rows \<longrightarrow> v \<in> set (kahn_order dept_rows)" for v
  proof (induction v rule: wf_induct_rule [OF wf])
    case (1 v)
    show ?case
    proof (rule impI, rule ccontr)
      assume v: "v \<in> external_id ` set dept_rows" and n: "v \<notin> set (kahn_order dept_rows)"
      from kahn_order_missing [OF v n] obtain pe where
        e: "(pe, v) \<in> dept_edges dept_rows" and pn: "pe \<notin> set (kahn_order dept_rows)" by blast
      from "1" [OF e] dept_edges_ids [OF e] pn show False by simp
    qed
  qed
  with kahn_order_subset [of dept_rows] show ?thesis by auto
qed

lemma topo_trancl:
  assumes "topo dept_rows order" "(a, b) \<in> (dept_edges dept_rows)\<^sup>+" "b \<in> set order"
  shows "a \<in> set order \<and> pos order a < pos order b"
  using assms(2,3)
proof (induction rule: trancl_induct)
  case (base y)
  with assms(1) show ?case by (auto simp: topo_def dept_edges_def)
next
  case (step y z)
  from step.hyps(2) step.prems assms(1) have "y \<in> set order \<and> pos order y < pos order z"
    by (auto simp: topo_def dept_edges_def)
  with step.IH show ?case by auto
qed

lemma kahn_order_cycle:
  assumes "\<not> acyclic (dept_edges dept_rows)"
  shows "length (kahn_order dept_rows) < length dept_rows"
proof -
  from assms obtain x where x: "(x, x) \<in> (dept_edges dept_rows)\<^sup>+"
    by (auto simp: acyclic_def)
  have xn: "x \<notin> set (kahn_order dept_rows)"
    using topo_trancl [OF kahn_order_topo x] by auto
  from x obtain z where "(z, x) \<in> dept_edges dept_rows"
    by (meson tranclD2)
  then have xi: "x \<in> external_id ` set dept_rows" using dept_edges_ids by blast
  have "set (kahn_order dept_rows) \<subset> external_id ` set dept_rows"
    using kahn_order_subset [of dept_rows] xn xi by blast
  then have "card (set (kahn_order dept_rows)) < card (external_id ` set dept_rows)"
    by (simp add: psubset_card_mono)
  also have "\<dots> \<le> length dept_rows"
    using card_image_le [of "set dept_rows" external_id] card_length [of dept_rows] by simp
  finally show ?thesis
    using kahn_order_distinct [of dept_rows] by (simp add: distinct_card)
qed

lemma pos_prefix: "c \<notin> set done \<Longrightarrow> pos (done @ c # rest) c = length done"
  by (induction "done") (auto simp: pos_def)

lemma pos_in_prefix:
  assumes "x \<in> set (done @ rest)" "pos (done @ rest) x < length done"
  shows "x \<in> set done"
proof -
  have "(done @ rest) ! pos (done @ rest) x = x" using assms(1) by (rule nth_pos)
  with assms(2) show ?thesis by (metis nth_append nth_mem)
qed

lemma topo_prefix:
  assumes "topo dept_rows order" "distinct order" "order = done @ c # rest"
    and "r \<in> set dept_rows" "external_id r = c" "in_set_parent dept_rows r = Some pe"
  shows "pe \<in> set done"
proof -
  have c: "c \<notin> set done" using assms(2,3) by auto
  have "pe \<in> set order \<and> pos order pe < pos order c"
    using assms by (auto simp: topo_def)
  then show ?thesis
    using pos_in_prefix [of pe "done" "c # rest"] pos_prefix [OF c, of rest] assms(3) by simp
qed

subsection \<open>Validated input\<close>

text \<open>
  Rows that pass \<^verbatim>\<open>validate_departments_csv\<close> have distinct, non-empty external ids.
\<close>

lemma distinct_count_le1: "\<forall>x\<in>set xs. count_list xs x \<le> 1 \<Longrightarrow> distinct xs"
proof (induction xs)
  case Nil
  then show ?case by simp
next
  case (Cons a xs)
  from Cons.prems have "count_list xs a = 0" by simp
  then have a: "a \<notin> set xs" by (simp add: count_list_0_iff)
  have "\<forall>x\<in>set xs. count_list xs x \<le> 1"
  proof
    fix x assume x: "x \<in> set xs"
    with Cons.prems have "count_list (a # xs) x \<le> 1" by simp
    then show "count_list xs x \<le> 1" by (simp split: if_splits)
  qed
  from Cons.IH [OF this] a show ?case by simp
qed

lemma check_required_ok:
  "check_required i dept_rows = Inr () \<Longrightarrow>
   \<forall>r\<in>set dept_rows. external_id r \<noteq> [] \<and> dept_name r \<noteq> []"
  by (induction dept_rows arbitrary: i) (auto split: if_splits)

lemma validate_departments_csv_ok:
  assumes "validate_departments_csv dept_rows = Inr ()"
  shows "distinct (map external_id dept_rows)"
    and "\<forall>r\<in>set dept_rows. external_id r \<noteq> [] \<and> dept_name r \<noteq> []"
proof -
  from assms have c: "check_required 2 dept_rows = Inr ()"
    and f: "filter (\<lambda>x. 1 < count_list (map external_id dept_rows) x) (map external_id dept_rows) = []"
    by (auto simp: validate_departments_csv_def Let_def split: sum.splits if_splits)
  from c show "\<forall>r\<in>set dept_rows. external_id r \<noteq> [] \<and> dept_name r \<noteq> []"
    by (rule check_required_ok)
  from f have "\<forall>x\<in>set (map external_id dept_rows). count_list (map external_id dept_rows) x \<le> 1"
    by (auto simp: filter_empty_conv not_less)
  then show "distinct (map external_id dept_rows)"
    by (rule distinct_count_le1)
qed

lemma in_set_parent_iff:
  "in_set_parent dept_rows r = Some pe \<longleftrightarrow>
     or_None (parent_external_id r) = Some pe \<and> pe \<in> external_id ` set dept_rows"
  by (auto simp: in_set_parent_def split: option.splits)

lemma kahn_order_length:
  assumes "distinct (map external_id dept_rows)" "acyclic (dept_edges dept_rows)"
  shows "length (kahn_order dept_rows) = length dept_rows"
proof -
  have "length (kahn_order dept_rows) = card (set (kahn_order dept_rows))"
    using kahn_order_distinct [of dept_rows] by (simp add: distinct_card)
  also have "\<dots> = card (set (map external_id dept_rows))"
    using kahn_order_complete [OF assms(2)] by simp
  also have "\<dots> = length dept_rows" using distinct_card [OF assms(1)] by simp
  finally show ?thesis .
qed

lemma kahn_order_full:
  assumes "length (kahn_order dept_rows) = length dept_rows"
  shows "set (kahn_order dept_rows) = external_id ` set dept_rows"
    and "distinct (map external_id dept_rows)"
proof -
  let ?o = "kahn_order dept_rows" and ?ids = "external_id ` set dept_rows"
  have c1: "card (set ?o) = length dept_rows"
    using kahn_order_distinct [of dept_rows] assms by (simp add: distinct_card)
  have c2: "card (set ?o) \<le> card ?ids"
    using kahn_order_subset [of dept_rows] by (simp add: card_mono)
  have c3: "card ?ids \<le> length dept_rows"
    using card_length [of "map external_id dept_rows"] by simp
  from c1 c2 c3 have e: "card (set ?o) = card ?ids" by simp
  show "set ?o = ?ids"
    using kahn_order_subset [of dept_rows] e by (simp add: card_subset_eq)
  have "card (set (map external_id dept_rows)) = length (map external_id dept_rows)"
    using c1 e by simp
  then show "distinct (map external_id dept_rows)" by (rule card_distinct)
qed

lemma by_ext_unique:
  assumes "distinct (map external_id dept_rows)" "r \<in> set dept_rows"
  shows "by_ext_of dept_rows (external_id r) = Some r"
proof -
  have "by_ext_of dept_rows (external_id r) \<noteq> None"
    using assms(2) by (simp add: by_ext_dom)
  then obtain r' where r': "by_ext_of dept_rows (external_id r) = Some r'" by blast
  from by_ext_Some [OF r'] have "r' \<in> set dept_rows" "external_id r' = external_id r" by simp_all
  moreover have "inj_on external_id (set dept_rows)"
    using assms(1) by (simp add: distinct_map)
  ultimately have "r' = r" using assms(2) by (simp add: inj_on_def)
  with r' show ?thesis by simp
qed

subsection \<open>The concrete inputs\<close>

lemma dept_edgesI:
  "r \<in> set dept_rows \<Longrightarrow> in_set_parent dept_rows r = Some pe \<Longrightarrow>
   (pe, external_id r) \<in> dept_edges dept_rows"
  by (auto simp: dept_edges_def)

lemma abc_ids: "external_id ` set abc_rows = {''A'', ''B'', ''C''}"
  by (auto simp: abc_rows_def dept_def)

lemma abc_parents:
  "in_set_parent abc_rows (dept ''C'' (Some ''B'')) = Some ''B''"
  "in_set_parent abc_rows (dept ''B'' (Some ''A'')) = Some ''A''"
  "in_set_parent abc_rows (dept ''A'' (Some [])) = None"
  by (simp_all add: in_set_parent_def abc_ids dept_def or_None_def)

lemma abc_acyclic: "acyclic (dept_edges abc_rows)"
proof (rule acyclicI_order [where f = "\<lambda>s. if s = ''A'' then 3 else if s = ''B'' then 2 else (1::nat)"])
  fix a b
  assume "(a, b) \<in> dept_edges abc_rows"
  then obtain r where r: "r \<in> set abc_rows" "in_set_parent abc_rows r = Some a" "b = external_id r"
    by (auto simp: dept_edges_def)
  from r(1) consider "r = dept ''C'' (Some ''B'')" | "r = dept ''B'' (Some ''A'')" | "r = dept ''A'' (Some [])"
    by (auto simp: abc_rows_def)
  then show "(if b = ''A'' then 3 else if b = ''B'' then 2 else (1::nat))
           < (if a = ''A'' then 3 else if a = ''B'' then 2 else 1)"
  proof cases
    case 1
    with r abc_parents show ?thesis by (simp add: dept_def)
  next
    case 2
    with r abc_parents show ?thesis by (simp add: dept_def)
  next
    case 3
    with r abc_parents show ?thesis by simp
  qed
qed

lemma abc_order: "kahn_order abc_rows = [''A'', ''B'', ''C'']"
  by (simp add: abc_rows_def kahn_order_def build_graph_def build_graph_step_def by_ext_of_def
      dept_def or_None_def dd_setdefault_def dd_add_def dd_get_def graph_get_def initial_queue_def
      relax_def)

lemma xy_ids: "external_id ` set xy_rows = {''X'', ''Y''}"
  by (auto simp: xy_rows_def dept_def)

lemma xy_parents:
  "in_set_parent xy_rows (dept ''X'' (Some ''Y'')) = Some ''Y''"
  "in_set_parent xy_rows (dept ''Y'' (Some ''X'')) = Some ''X''"
  by (simp_all add: in_set_parent_def xy_ids dept_def or_None_def)

lemma xy_cycle: "\<not> acyclic (dept_edges xy_rows)"
proof -
  have "(''X'', external_id (dept ''Y'' (Some ''X''))) \<in> dept_edges xy_rows"
    by (rule dept_edgesI [OF _ xy_parents(2)]) (simp add: xy_rows_def)
  moreover have "(''Y'', external_id (dept ''X'' (Some ''Y''))) \<in> dept_edges xy_rows"
    by (rule dept_edgesI [OF _ xy_parents(1)]) (simp add: xy_rows_def)
  ultimately have "(''X'', ''Y'') \<in> dept_edges xy_rows" "(''Y'', ''X'') \<in> dept_edges xy_rows"
    by (simp_all add: dept_def)
  then have "(''X'', ''X'') \<in> (dept_edges xy_rows)\<^sup>+"
    by (rule trancl_trans [OF r_into_trancl r_into_trancl])
  then show ?thesis by (auto simp: acyclic_def)
qed

text \<open>
  C1. For rows with distinct external ids whose parent links have no cycle, the order
  that the loop computes has the length of the input, so no error is raised and the
  creation runs over it; it holds every external id exactly once; and a row whose parent
  is the external id of a row of the input stands after that parent.
\<close>

theorem resolution_order_respects_parents:
  assumes uniq: "distinct (map external_id dept_rows)"
    and acyc: "acyclic (dept_edges dept_rows)"
  shows "length (kahn_order dept_rows) = length dept_rows
       \<and> distinct (kahn_order dept_rows)
       \<and> set (kahn_order dept_rows) = external_id ` set dept_rows
       \<and> (\<forall>r\<in>set dept_rows. \<forall>pe.
            or_None (parent_external_id r) = Some pe \<and> pe \<in> external_id ` set dept_rows \<longrightarrow>
            (\<exists>i j. i < j \<and> j < length (kahn_order dept_rows)
                   \<and> kahn_order dept_rows ! i = pe \<and> kahn_order dept_rows ! j = external_id r))
       \<and> build_hierarchy_and_create http dept_rows st =
           create_in_order http (by_ext_of dept_rows) (kahn_order dept_rows) Map.empty st"
proof -
  let ?o = "kahn_order dept_rows"
  have s: "set ?o = external_id ` set dept_rows"
    using kahn_order_complete [OF acyc] .
  have d: "distinct ?o" by (rule kahn_order_distinct)
  have "length ?o = card (set ?o)" using d by (simp add: distinct_card)
  also have "\<dots> = card (set (map external_id dept_rows))" using s by simp
  also have "\<dots> = length dept_rows" using distinct_card [OF uniq] by simp
  finally have l: "length ?o = length dept_rows" .
  have t: "\<forall>r\<in>set dept_rows. \<forall>pe.
            or_None (parent_external_id r) = Some pe \<and> pe \<in> external_id ` set dept_rows \<longrightarrow>
            (\<exists>i j. i < j \<and> j < length ?o \<and> ?o ! i = pe \<and> ?o ! j = external_id r)"
  proof (intro ballI allI impI)
    fix r pe
    assume r: "r \<in> set dept_rows"
      and p: "or_None (parent_external_id r) = Some pe \<and> pe \<in> external_id ` set dept_rows"
    then have isp: "in_set_parent dept_rows r = Some pe" by (simp add: in_set_parent_iff)
    have c: "external_id r \<in> set ?o" using s r by simp
    with kahn_order_topo [of dept_rows] r isp
    have pe: "pe \<in> set ?o" and lt: "pos ?o pe < pos ?o (external_id r)"
      by (auto simp: topo_def)
    show "\<exists>i j. i < j \<and> j < length ?o \<and> ?o ! i = pe \<and> ?o ! j = external_id r"
      using lt pos_less [OF c] nth_pos [OF pe] nth_pos [OF c] by blast
  qed
  have b: "build_hierarchy_and_create http dept_rows st =
           create_in_order http (by_ext_of dept_rows) ?o Map.empty st"
    using l by (simp add: build_hierarchy_and_create_def)
  from l d s t b show ?thesis by (intro conjI)
qed

theorem resolution_order_respects_parents_witness:
  "kahn_order abc_rows = [''A'', ''B'', ''C'']
   \<and> length (kahn_order abc_rows) = length abc_rows
   \<and> distinct (kahn_order abc_rows)
   \<and> set (kahn_order abc_rows) = external_id ` set abc_rows
   \<and> (\<exists>i j. i < j \<and> j < length (kahn_order abc_rows)
          \<and> kahn_order abc_rows ! i = ''B''
          \<and> kahn_order abc_rows ! j = external_id (dept ''C'' (Some ''B'')))"
proof -
  have u: "distinct (map external_id abc_rows)"
    by (simp add: abc_rows_def dept_def)
  have r: "dept ''C'' (Some ''B'') \<in> set abc_rows"
    by (simp add: abc_rows_def)
  have p: "or_None (parent_external_id (dept ''C'' (Some ''B''))) = Some ''B''
           \<and> ''B'' \<in> external_id ` set abc_rows"
    by (simp add: abc_ids) (simp add: dept_def or_None_def)
  note c = resolution_order_respects_parents [OF u abc_acyclic, of scripted "st_of [] []"]
  from c have 1: "length (kahn_order abc_rows) = length abc_rows" by (rule conjunct1)
  from c have 2: "distinct (kahn_order abc_rows)" by (elim conjE)
  from c have 3: "set (kahn_order abc_rows) = external_id ` set abc_rows" by (elim conjE)
  from c have 4: "\<forall>r\<in>set abc_rows. \<forall>pe.
            or_None (parent_external_id r) = Some pe \<and> pe \<in> external_id ` set abc_rows \<longrightarrow>
            (\<exists>i j. i < j \<and> j < length (kahn_order abc_rows)
                   \<and> kahn_order abc_rows ! i = pe \<and> kahn_order abc_rows ! j = external_id r)"
    by (elim conjE)
  from 4 [rule_format, OF r p] abc_order 1 2 3 show ?thesis
    by (intro conjI)
qed

text \<open>
  C2. When the parent links of the input have a cycle, the order is shorter than the
  input: the function raises the ValueError of the cycle and the state is the one it
  started from, so no request has been sent and the cache is untouched.
\<close>

theorem cycle_fails_without_calls:
  assumes "\<not> acyclic (dept_edges dept_rows)"
  shows "build_hierarchy_and_create http dept_rows st = Some (Inl (ValueError CycleInHierarchy), st)"
  using kahn_order_cycle [OF assms] by (simp add: build_hierarchy_and_create_def)

theorem cycle_fails_without_calls_witness:
  "\<not> acyclic (dept_edges xy_rows)
   \<and> build_hierarchy_and_create scripted xy_rows (st_of [] []) =
       Some (Inl (ValueError CycleInHierarchy), st_of [] [])"
  using cycle_fails_without_calls [OF xy_cycle, of scripted "st_of [] []"] xy_cycle by (intro conjI)

section \<open>The retry wrapper at its call sites\<close>

text \<open>
  Every call site passes the bare session call to \<^verbatim>\<open>backoff_retry\<close> and tests the status
  afterwards. The session call raises no \<^verbatim>\<open>HTTPError\<close>, so the wrapper returns after the
  first attempt whatever the status.
\<close>

lemma send_not_transient: "send http rq st = (Inl e, st') \<Longrightarrow> \<not> transient e"
  by (auto simp: send_def split: prod.splits transport_result.splits)

lemma backoff_retry_send:
  "0 < retries \<Longrightarrow> backoff_retry (send http rq) retries base st = send http rq st"
  by (cases "send http rq st")
     (auto simp: backoff_retry_def upt_conv_Cons split: sum.splits dest: send_not_transient)

text \<open>
  Around an operation that raises by itself the wrapper does what it is written for:
  it sleeps 1 and 2 seconds before the third attempt, gives up after ten attempts, and
  lets any other error through at once.
\<close>

lemma upt10: "[0..<10] = [0, 1, 2, 3, 4, 5, 6, 7, 8, 9]"
  by (simp add: upt_rec)

lemma backoff_retry_as_designed:
  "backoff_retry raising_call 10 1 (st_of [r503, r503, r200] [])
     = (Inr r200, \<lparr>world = [], DEPT_CACHE = [], log = [Slept 1, Slept 2]\<rparr>)"
  by (simp add: backoff_retry_def upt10 raising_call_def raise_for_status_def sleep_def st_of_def
      r503_def r200_def)

lemma backoff_retry_exhausted:
  "backoff_retry raising_call 10 1 (st_of (replicate 10 r503) [])
     = (Inl (RuntimeError MaxRetriesExceeded),
        \<lparr>world = [], DEPT_CACHE = [],
         log = [Slept 1, Slept 2, Slept 4, Slept 8, Slept 16, Slept 32, Slept 64, Slept 128,
                Slept 256, Slept 512]\<rparr>)"
  by (simp add: backoff_retry_def upt10 raising_call_def raise_for_status_def sleep_def st_of_def
      r503_def numeral_eq_Suc)

lemma backoff_retry_other_status:
  "backoff_retry raising_call 10 1 (st_of [\<lparr>status_code = 404, body = NotJson\<rparr>, r200] [])
     = (Inl (HTTPError (Some 404)), \<lparr>world = [r200], DEPT_CACHE = [], log = []\<rparr>)"
  by (simp add: backoff_retry_def upt10 raising_call_def raise_for_status_def sleep_def st_of_def)

text \<open>
  C3. The service answers 503, 503 and then with success. In each of the four operations
  the first response leaves the retry wrapper as a value and \<^verbatim>\<open>raise_for_status\<close> raises
  outside of it: no sleep, no second attempt of that request, and the HTTP error of a 503
  response ends the call instead of a success at the third attempt. (In the update the
  error is caught, and the create call that follows meets the second 503.)
\<close>

theorem transient_status_not_retried:
  "list_all_departments scripted
     (st_of [r503, r503, \<lparr>status_code = 200, body = DeptPage (Some []) (Some 1)\<rparr>] [])
   = Some (Inl (HTTPError (Some 503)),
       \<lparr>world = [r503, \<lparr>status_code = 200, body = DeptPage (Some []) (Some 1)\<rparr>],
        DEPT_CACHE = [], log = [Sent (ListDepartments 1 100)]\<rparr>)
   \<and> ensure_department scripted ''Sales'' ''NEW'' None None None
       (st_of [r503, r503, \<lparr>status_code = 201, body = DeptObject sales_new\<rparr>] [])
   = Some (Inl (HTTPError (Some 503)),
       \<lparr>world = [r503, \<lparr>status_code = 201, body = DeptObject sales_new\<rparr>],
        DEPT_CACHE = [],
        log = [Sent (PostDepartment (post_payload ''Sales'' ''NEW'' None None None))]\<rparr>)
   \<and> ensure_department scripted ''Sales'' ''NEW'' None None None
       (st_of [r503, r503, \<lparr>status_code = 200, body = DeptObject sales_legacy\<rparr>] [sales_legacy])
   = Some (Inl (HTTPError (Some 503)),
       \<lparr>world = [\<lparr>status_code = 200, body = DeptObject sales_legacy\<rparr>],
        DEPT_CACHE = [sales_legacy],
        log = [Sent (PatchDepartment (IntId 2) (patch_payload ''NEW'' None None)),
               Sent (PostDepartment (post_payload ''Sales'' ''NEW'' None None None))]\<rparr>)
   \<and> create_user scripted alice [''D1'' \<mapsto> IntId 5]
       (st_of [r503, r503, \<lparr>status_code = 201, body = UserObject (Some (IntId 77))\<rparr>] [])
   = (Inl (HTTPError (Some 503)),
       \<lparr>world = [r503, \<lparr>status_code = 201, body = UserObject (Some (IntId 77))\<rparr>],
        DEPT_CACHE = [], log = [Sent (PostUser (user_body alice (IntId 5)))]\<rparr>)"
proof (intro conjI)
  show "list_all_departments scripted
     (st_of [r503, r503, \<lparr>status_code = 200, body = DeptPage (Some []) (Some 1)\<rparr>] [])
   = Some (Inl (HTTPError (Some 503)),
       \<lparr>world = [r503, \<lparr>status_code = 200, body = DeptPage (Some []) (Some 1)\<rparr>],
        DEPT_CACHE = [], log = [Sent (ListDepartments 1 100)]\<rparr>)"
    by (simp add: list_all_departments_def list_pages.simps backoff_retry_send send_def
        scripted_def raise_for_status_def st_of_def r503_def)
  show "ensure_department scripted ''Sales'' ''NEW'' None None None
       (st_of [r503, r503, \<lparr>status_code = 201, body = DeptObject sales_new\<rparr>] [])
   = Some (Inl (HTTPError (Some 503)),
       \<lparr>world = [r503, \<lparr>status_code = 201, body = DeptObject sales_new\<rparr>],
        DEPT_CACHE = [],
        log = [Sent (PostDepartment (post_payload ''Sales'' ''NEW'' None None None))]\<rparr>)"
    by (simp add: ensure_department_def adopt_by_name_def create_department_def store_created_def
        backoff_retry_send send_def scripted_def raise_for_status_def st_of_def r503_def
        truthy_def)
  show "ensure_department scripted ''Sales'' ''NEW'' None None None
       (st_of [r503, r503, \<lparr>status_code = 200, body = DeptObject sales_legacy\<rparr>] [sales_legacy])
   = Some (Inl (HTTPError (Some 503)),
       \<lparr>world = [\<lparr>status_code = 200, body = DeptObject sales_legacy\<rparr>],
        DEPT_CACHE = [sales_legacy],
        log = [Sent (PatchDepartment (IntId 2) (patch_payload ''NEW'' None None)),
               Sent (PostDepartment (post_payload ''Sales'' ''NEW'' None None None))]\<rparr>)"
    by (simp add: ensure_department_def adopt_by_name_def create_department_def store_created_def
        backoff_retry_send send_def scripted_def raise_for_status_def st_of_def r503_def
        sales_legacy_def or_None_def truthy_def no_keys_def getitem_id_def)
  show "create_user scripted alice [''D1'' \<mapsto> IntId 5]
       (st_of [r503, r503, \<lparr>status_code = 201, body = UserObject (Some (IntId 77))\<rparr>] [])
   = (Inl (HTTPError (Some 503)),
       \<lparr>world = [r503, \<lparr>status_code = 201, body = UserObject (Some (IntId 77))\<rparr>],
        DEPT_CACHE = [], log = [Sent (PostUser (user_body alice (IntId 5)))]\<rparr>)"
    by (simp add: create_user_def backoff_retry_send send_def scripted_def raise_for_status_def
        st_of_def r503_def alice_def)
qed

section \<open>The upsert protocol\<close>

lemma find_department_by_external_id_truthy:
  "ext \<noteq> [] \<Longrightarrow> find_department_by_external_id cache ext = Some d \<Longrightarrow> truthy (Some d)"
  by (induction cache) (auto simp: truthy_def no_keys_def split: if_splits)

lemma find_department_by_name_Some:
  "find_department_by_name cache nm = Some d \<Longrightarrow> rd_name d = Some nm"
  by (induction cache) (auto split: if_splits)

lemma find_department_by_name_truthy:
  "find_department_by_name cache nm = Some d \<Longrightarrow> truthy (Some d)"
  by (auto simp: truthy_def no_keys_def dest: find_department_by_name_Some)

lemma ensure_department_hit:
  "ext \<noteq> [] \<Longrightarrow> find_department_by_external_id (DEPT_CACHE st) ext = Some d \<Longrightarrow>
   ensure_department http nm ext parent_id label description st = Some (getitem_id d, st)"
  by (simp add: ensure_department_def find_department_by_external_id_truthy)

text \<open>
  The adoption as it works: when the external id is not found in the cache, the first cache
  entry of the name has no external id, and the update of that entry is answered with a
  status outside 400-599 and a JSON object, then exactly this one request is sent, the
  first cache entry carrying that id is replaced by the response body stamped with the
  external id, and the \<^verbatim>\<open>id\<close> of the response body is returned.
\<close>

lemma adopt_legacy_department:
  assumes miss: "(if ext \<noteq> [] then find_department_by_external_id (DEPT_CACHE st) ext else None) = None"
    and by_name: "find_department_by_name (DEPT_CACHE st) nm = Some existing_by_name"
    and legacy: "or_None (rd_externalId existing_by_name) = None"
    and has_id: "rd_id existing_by_name = Some i"
    and patch: "http (PatchDepartment i (patch_payload ext label description)) (world st) = (Resp r, w1)"
    and ok: "status_code r < 400 \<or> 600 \<le> status_code r"
    and echo: "body r = JsonObject updated departments pages"
    and over: "overwrite_by_id i (updated\<lparr>rd_externalId := Some ext\<rparr>) (DEPT_CACHE st) = Inr cache"
  shows "ensure_department http nm ext parent_id label description st =
           Some (getitem_id updated,
                 st\<lparr>world := w1,
                    log := log st @ [Sent (PatchDepartment i (patch_payload ext label description))],
                    DEPT_CACHE := cache\<rparr>)"
  using patch miss by_name legacy has_id ok echo over find_department_by_name_truthy [OF by_name]
  by (auto simp: ensure_department_def adopt_by_name_def backoff_retry_send send_def
      raise_for_status_def getitem_id_def truthy_def Let_def split: if_splits)

text \<open>
  An update that is answered with an error status is caught by the \<^verbatim>\<open>except\<close> clause, and
  the department is created.
\<close>

lemma update_failure_falls_through:
  "ensure_department scripted ''Sales'' ''NEW'' None None None
        (st_of [\<lparr>status_code = 400, body = NotJson\<rparr>,
                \<lparr>status_code = 201, body = DeptObject sales_new\<rparr>] [sales_legacy])
      = Some (Inr (IntId 3),
          \<lparr>world = [],
           DEPT_CACHE = [sales_legacy, sales_new\<lparr>rd_externalId := Some ''NEW''\<rparr>],
           log = [Sent (PatchDepartment (IntId 2) (patch_payload ''NEW'' None None)),
                  Sent (PostDepartment (post_payload ''Sales'' ''NEW'' None None None))]\<rparr>)"
  by (simp add: ensure_department_def adopt_by_name_def create_department_def store_created_def
      backoff_retry_send send_def scripted_def raise_for_status_def st_of_def getitem_id_def
      truthy_def no_keys_def sales_legacy_def sales_new_def or_None_def)

text \<open>
  A response body without the key \<^verbatim>\<open>id\<close>: the created department is in the cache when
  \<^verbatim>\<open>created["id"]\<close> raises, and the cache entry is overwritten when \<^verbatim>\<open>updated["id"]\<close>
  raises.
\<close>

lemma body_without_id:
  "ensure_department scripted ''Sales'' ''NEW'' None None None
        (st_of [\<lparr>status_code = 201, body = UserObject None\<rparr>] [])
      = Some (Inl (KeyError ''id''),
          \<lparr>world = [],
           DEPT_CACHE = [\<lparr>rd_id = None, rd_externalId = Some ''NEW'', rd_name = None\<rparr>],
           log = [Sent (PostDepartment (post_payload ''Sales'' ''NEW'' None None None))]\<rparr>)
   \<and> ensure_department scripted ''Sales'' ''NEW'' None None None
        (st_of [\<lparr>status_code = 200, body = DeptPage (Some []) (Some 1)\<rparr>] [sales_legacy])
      = Some (Inl (KeyError ''id''),
          \<lparr>world = [],
           DEPT_CACHE = [\<lparr>rd_id = None, rd_externalId = Some ''NEW'', rd_name = None\<rparr>],
           log = [Sent (PatchDepartment (IntId 2) (patch_payload ''NEW'' None None))]\<rparr>)"
  by (simp add: ensure_department_def adopt_by_name_def create_department_def store_created_def
      backoff_retry_send send_def scripted_def raise_for_status_def st_of_def getitem_id_def
      truthy_def no_keys_def sales_legacy_def or_None_def)

text \<open>
  C5. The cache holds two departments of the name Sales: first one that has an external
  id, then the legacy one that has none. For the row Sales with the external id NEW, which
  is not in the cache, the legacy department is not adopted. The lookup by name returns
  the first department of the name and the test of its external id comes after it, so the
  adoption sends no update, whatever the service would answer; the create call that
  follows adds a third department Sales to the cache. With the two cache entries in the
  other order the same call adopts the legacy department with one update and no create.
\<close>

theorem legacy_department_shadowed:
  "find_department_by_external_id [sales_managed, sales_legacy] ''NEW'' = None
   \<and> sales_legacy \<in> set [sales_managed, sales_legacy]
   \<and> or_None (rd_externalId sales_legacy) = None
   \<and> rd_name sales_legacy = Some ''Sales''
   \<and> find_department_by_name [sales_managed, sales_legacy] ''Sales'' = Some sales_managed
   \<and> adopt_by_name http ''Sales'' ''NEW'' label description
        \<lparr>world = w, DEPT_CACHE = [sales_managed, sales_legacy], log = l\<rparr>
      = (None, \<lparr>world = w, DEPT_CACHE = [sales_managed, sales_legacy], log = l\<rparr>)
   \<and> ensure_department scripted ''Sales'' ''NEW'' None None None
        (st_of [\<lparr>status_code = 201, body = DeptObject sales_new\<rparr>] [sales_managed, sales_legacy])
      = Some (Inr (IntId 3),
          \<lparr>world = [],
           DEPT_CACHE = [sales_managed, sales_legacy, sales_new\<lparr>rd_externalId := Some ''NEW''\<rparr>],
           log = [Sent (PostDepartment (post_payload ''Sales'' ''NEW'' None None None))]\<rparr>)
   \<and> ensure_department scripted ''Sales'' ''NEW'' None None None
        (st_of [\<lparr>status_code = 200, body = DeptObject sales_legacy\<rparr>] [sales_legacy, sales_managed])
      = Some (Inr (IntId 2),
          \<lparr>world = [],
           DEPT_CACHE = [sales_legacy\<lparr>rd_externalId := Some ''NEW''\<rparr>, sales_managed],
           log = [Sent (PatchDepartment (IntId 2) (patch_payload ''NEW'' None None))]\<rparr>)"
proof (intro conjI)
  show "adopt_by_name http ''Sales'' ''NEW'' label description
        \<lparr>world = w, DEPT_CACHE = [sales_managed, sales_legacy], log = l\<rparr>
      = (None, \<lparr>world = w, DEPT_CACHE = [sales_managed, sales_legacy], log = l\<rparr>)"
    by (simp add: adopt_by_name_def sales_managed_def or_None_def)
  show "ensure_department scripted ''Sales'' ''NEW'' None None None
        (st_of [\<lparr>status_code = 201, body = DeptObject sales_new\<rparr>] [sales_managed, sales_legacy])
      = Some (Inr (IntId 3),
          \<lparr>world = [],
           DEPT_CACHE = [sales_managed, sales_legacy, sales_new\<lparr>rd_externalId := Some ''NEW''\<rparr>],
           log = [Sent (PostDepartment (post_payload ''Sales'' ''NEW'' None None None))]\<rparr>)"
    by (simp add: ensure_department_def adopt_by_name_def create_department_def store_created_def
        backoff_retry_send send_def scripted_def raise_for_status_def st_of_def getitem_id_def
        truthy_def no_keys_def sales_managed_def sales_legacy_def sales_new_def or_None_def)
  show "ensure_department scripted ''Sales'' ''NEW'' None None None
        (st_of [\<lparr>status_code = 200, body = DeptObject sales_legacy\<rparr>] [sales_legacy, sales_managed])
      = Some (Inr (IntId 2),
          \<lparr>world = [],
           DEPT_CACHE = [sales_legacy\<lparr>rd_externalId := Some ''NEW''\<rparr>, sales_managed],
           log = [Sent (PatchDepartment (IntId 2) (patch_payload ''NEW'' None None))]\<rparr>)"
    by (simp add: ensure_department_def adopt_by_name_def
        backoff_retry_send send_def scripted_def raise_for_status_def st_of_def getitem_id_def
        truthy_def no_keys_def sales_managed_def sales_legacy_def or_None_def)
qed (simp_all add: sales_managed_def sales_legacy_def or_None_def)

subsection \<open>The refresh after a conflict\<close>




text \<open>
  A JSON object that is no page of the listing is read as an empty last page: after the
  409 the cache is emptied, and the call fails with the HTTP error of the 409 response.
\<close>

lemma refresh_reads_any_object:
  "create_department scripted ''Sales'' ''NEW'' None None None
     (st_of [\<lparr>status_code = 409, body = NotJson\<rparr>,
             \<lparr>status_code = 200, body = DeptObject sales_managed\<rparr>] [sales_legacy])
   = Some (Inl (HTTPError (Some 409)),
       \<lparr>world = [], DEPT_CACHE = [],
        log = [Sent (PostDepartment (post_payload ''Sales'' ''NEW'' None None None)),
               Sent (ListDepartments 1 100)]\<rparr>)"
  by (simp add: create_department_def refresh_dept_cache_def list_all_departments_def
      list_pages.simps backoff_retry_send send_def scripted_def raise_for_status_def st_of_def
      truthy_def)



section \<open>User provisioning\<close>

text \<open>
  C8. What the loop over the user rows does at a row whose department is in the mapping,
  by the answer to the create-user request. Answered 409, the loop adds the result
  \<open>Exists\<close> for that nickname and goes on with the next row, after the pause. When no
  response arrives, when the status is another one of 400-599, or when the body of a
  response of another status is no JSON object, the loop ends with that error, with no
  second attempt, and the rows left are not looked at: the state is the one after this
  single request. Any other response adds the result \<open>Created\<close>, and the loop goes on.
\<close>

theorem user_conflict_is_exists:
  assumes dept: "ext_to_id (u_dept_external_id u) = Some dept_id"
    and post: "http (PostUser (user_body u dept_id)) (world st) = (answer, w1)"
    and st1: "st1 = st\<lparr>world := w1, log := log st @ [Sent (PostUser (user_body u dept_id))]\<rparr>"
  shows "(\<forall>r. answer = Resp r \<and> status_code r = 409 \<longrightarrow>
            create_user http u ext_to_id st = (Inr (Exists (u_nickname u)), st1)
            \<and> provision_users http ext_to_id (u # user_rows) results st =
                provision_users http ext_to_id user_rows (results @ [Exists (u_nickname u)])
                  (sleep (1 / 2) st1))
       \<and> (answer = ConnFail \<longrightarrow>
            provision_users http ext_to_id (u # user_rows) results st = (Inl ConnectionError, st1))
       \<and> (\<forall>r. answer = Resp r \<and> status_code r \<noteq> 409 \<and> 400 \<le> status_code r \<and> status_code r < 600 \<longrightarrow>
            provision_users http ext_to_id (u # user_rows) results st =
              (Inl (HTTPError (Some (status_code r))), st1))
       \<and> (\<forall>r. answer = Resp r \<and> (status_code r < 400 \<or> 600 \<le> status_code r) \<and> body r = NotJson \<longrightarrow>
            provision_users http ext_to_id (u # user_rows) results st = (Inl BadResponseBody, st1))
       \<and> (\<forall>r d departments pages.
            answer = Resp r \<and> (status_code r < 400 \<or> 600 \<le> status_code r)
            \<and> body r = JsonObject d departments pages \<longrightarrow>
            provision_users http ext_to_id (u # user_rows) results st =
              provision_users http ext_to_id user_rows (results @ [Created (u_nickname u) (rd_id d)])
                (sleep (1 / 2) st1))
       \<and> (\<forall>e st'. create_user http u ext_to_id st = (Inl e, st') \<longrightarrow>
            provision_users http ext_to_id (u # user_rows) results st = (Inl e, st'))"
  using post dept st1
  by (auto simp: create_user_def backoff_retry_send send_def raise_for_status_def)

theorem user_conflict_is_exists_witness:
  "provision_users scripted [''D1'' \<mapsto> IntId 5] [alice, bob] []
     (st_of [\<lparr>status_code = 409, body = NotJson\<rparr>,
             \<lparr>status_code = 201, body = UserObject (Some (IntId 77))\<rparr>] [])
   = (Inr [Exists ''alice'', Created ''bob'' (Some (IntId 77))],
      \<lparr>world = [], DEPT_CACHE = [],
       log = [Sent (PostUser (user_body alice (IntId 5))), Slept (1 / 2),
              Sent (PostUser (user_body bob (IntId 5))), Slept (1 / 2)]\<rparr>)
   \<and> provision_users scripted [''D1'' \<mapsto> IntId 5] [alice, bob] []
     (st_of [\<lparr>status_code = 403, body = NotJson\<rparr>,
             \<lparr>status_code = 201, body = UserObject (Some (IntId 77))\<rparr>] [])
   = (Inl (HTTPError (Some 403)),
      \<lparr>world = [\<lparr>status_code = 201, body = UserObject (Some (IntId 77))\<rparr>], DEPT_CACHE = [],
       log = [Sent (PostUser (user_body alice (IntId 5)))]\<rparr>)
   \<and> provision_users scripted [''D1'' \<mapsto> IntId 5] [alice, bob] [] (st_of [] [])
   = (Inl ConnectionError,
      \<lparr>world = [], DEPT_CACHE = [], log = [Sent (PostUser (user_body alice (IntId 5)))]\<rparr>)
   \<and> provision_users scripted [''D1'' \<mapsto> IntId 5] [alice, bob] []
     (st_of [\<lparr>status_code = 200, body = NotJson\<rparr>,
             \<lparr>status_code = 201, body = UserObject (Some (IntId 77))\<rparr>] [])
   = (Inl BadResponseBody,
      \<lparr>world = [\<lparr>status_code = 201, body = UserObject (Some (IntId 77))\<rparr>], DEPT_CACHE = [],
       log = [Sent (PostUser (user_body alice (IntId 5)))]\<rparr>)"
proof -
  let ?m = "[''D1'' \<mapsto> IntId 5]"
  let ?rq = "PostUser (user_body alice (IntId 5))"
  let ?r2 = "\<lparr>status_code = 201, body = UserObject (Some (IntId 77))\<rparr>"
  let ?r409 = "\<lparr>status_code = 409, body = NotJson\<rparr>"
  let ?r403 = "\<lparr>status_code = 403, body = NotJson\<rparr>"
  let ?r200 = "\<lparr>status_code = 200, body = NotJson\<rparr>"
  have dept: "?m (u_dept_external_id alice) = Some (IntId 5)"
    by (simp add: alice_def)
  have p409: "scripted ?rq (world (st_of [?r409, ?r2] [])) = (Resp ?r409, [?r2])"
    by (simp add: scripted_def st_of_def)
  have p403: "scripted ?rq (world (st_of [?r403, ?r2] [])) = (Resp ?r403, [?r2])"
    by (simp add: scripted_def st_of_def)
  have pfail: "scripted ?rq (world (st_of [] [])) = (ConnFail, [])"
    by (simp add: scripted_def st_of_def)
  have p200: "scripted ?rq (world (st_of [?r200, ?r2] [])) = (Resp ?r200, [?r2])"
    by (simp add: scripted_def st_of_def)
  from user_conflict_is_exists [where http = scripted and ext_to_id = "?m" and u = alice
      and dept_id = "IntId 5" and user_rows = "[bob]" and results = "[]", OF dept p409 refl]
  have a: "provision_users scripted ?m [alice, bob] [] (st_of [?r409, ?r2] []) =
             provision_users scripted ?m [bob] [Exists ''alice'']
               (sleep (1 / 2) ((st_of [?r409, ?r2] [])\<lparr>world := [?r2],
                  log := log (st_of [?r409, ?r2] []) @ [Sent ?rq]\<rparr>))"
    by (simp add: alice_def)
  from user_conflict_is_exists [where http = scripted and ext_to_id = "?m" and u = alice
      and dept_id = "IntId 5" and user_rows = "[bob]" and results = "[]", OF dept p403 refl]
  have b: "provision_users scripted ?m [alice, bob] [] (st_of [?r403, ?r2] []) =
             (Inl (HTTPError (Some 403)),
              (st_of [?r403, ?r2] [])\<lparr>world := [?r2], log := log (st_of [?r403, ?r2] []) @ [Sent ?rq]\<rparr>)"
    by simp
  from user_conflict_is_exists [where http = scripted and ext_to_id = "?m" and u = alice
      and dept_id = "IntId 5" and user_rows = "[bob]" and results = "[]", OF dept pfail refl]
  have c: "provision_users scripted ?m [alice, bob] [] (st_of [] []) =
             (Inl ConnectionError,
              (st_of [] [])\<lparr>world := [], log := log (st_of [] []) @ [Sent ?rq]\<rparr>)"
    by simp
  from user_conflict_is_exists [where http = scripted and ext_to_id = "?m" and u = alice
      and dept_id = "IntId 5" and user_rows = "[bob]" and results = "[]", OF dept p200 refl]
  have d: "provision_users scripted ?m [alice, bob] [] (st_of [?r200, ?r2] []) =
             (Inl BadResponseBody,
              (st_of [?r200, ?r2] [])\<lparr>world := [?r2], log := log (st_of [?r200, ?r2] []) @ [Sent ?rq]\<rparr>)"
    by simp
  show ?thesis
    unfolding a b c d
    by (simp add: create_user_def backoff_retry_send send_def scripted_def raise_for_status_def
        st_of_def sleep_def bob_def)
qed

lemma lower_true: "lower ''true'' = ''true''"
  by code_simp

lemma lower_TRUE: "lower ''TRUE'' = ''true''"
  by code_simp

lemma lower_None: "lower ''None'' \<noteq> ''true''"
  by code_simp

text \<open>
  C10. The defaults of the create-user body for fields that the row does not have, the
  flag \<^verbatim>\<open>passwordChangeRequired\<close>, and that this body is what \<^verbatim>\<open>create_user\<close> sends.
\<close>

theorem user_body_defaults:
  "(u_language u = None \<longrightarrow> ub_language (user_body u dept_id) = PyStr ''ru'')
   \<and> (u_timezone u = None \<longrightarrow> ub_timezone (user_body u dept_id) = PyStr ''Europe/Moscow'')
   \<and> (u_middle u = None \<longrightarrow> ub_middle (user_body u dept_id) = PyStr [])
   \<and> (u_position u = None \<longrightarrow> ub_position (user_body u dept_id) = PyStr [])
   \<and> (u_externalId u = None \<longrightarrow> ub_externalId (user_body u dept_id) = PyStr [])
   \<and> (u_password u = None \<longrightarrow> ub_password (user_body u dept_id) = PyStr [])
   \<and> (u_passwordChangeRequired u = None \<longrightarrow> ub_passwordChangeRequired (user_body u dept_id))
   \<and> (\<forall>v. u_passwordChangeRequired u = Some v \<longrightarrow>
          ub_passwordChangeRequired (user_body u dept_id) = (lower (py_str v) = ''true''))
   \<and> (ext_to_id (u_dept_external_id u) = Some dept_id \<longrightarrow>
          log (snd (create_user http u ext_to_id st)) = log st @ [Sent (PostUser (user_body u dept_id))])"
  by (auto simp: user_body_def get_default_def lower_true create_user_def backoff_retry_send
      send_def split: prod.splits transport_result.splits sum.splits body.splits)

theorem user_body_defaults_witness:
  "user_body alice (IntId 5) =
     \<lparr>ub_nickname = ''alice'', ub_departmentId = IntId 5, ub_first = ''Alice'', ub_last = ''A'',
      ub_middle = PyStr [], ub_position = PyStr [], ub_language = PyStr ''ru'',
      ub_timezone = PyStr ''Europe/Moscow'', ub_externalId = PyStr [], ub_password = PyStr [],
      ub_passwordChangeRequired = True\<rparr>
   \<and> ub_passwordChangeRequired (user_body bob (IntId 5))
   \<and> \<not> ub_passwordChangeRequired (user_body (bob\<lparr>u_passwordChangeRequired := Some PyNone\<rparr>) (IntId 5))
   \<and> log (snd (create_user scripted alice [''D1'' \<mapsto> IntId 5] (st_of [] [])))
       = [Sent (PostUser (user_body alice (IntId 5)))]"
proof -
  have a: "u_language alice = None" "u_timezone alice = None" "u_middle alice = None"
    "u_position alice = None" "u_externalId alice = None" "u_password alice = None"
    "u_passwordChangeRequired alice = None"
    by (simp_all add: alice_def)
  have b: "u_passwordChangeRequired bob = Some (PyStr ''TRUE'')"
    by (simp add: bob_def)
  have c: "u_passwordChangeRequired (bob\<lparr>u_passwordChangeRequired := Some PyNone\<rparr>) = Some PyNone"
    by simp
  have d: "[''D1'' \<mapsto> IntId 5] (u_dept_external_id alice) = Some (IntId 5)"
    by (simp add: alice_def)
  have "ub_language (user_body alice (IntId 5)) = PyStr ''ru''"
    "ub_timezone (user_body alice (IntId 5)) = PyStr ''Europe/Moscow''"
    "ub_middle (user_body alice (IntId 5)) = PyStr []"
    "ub_position (user_body alice (IntId 5)) = PyStr []"
    "ub_externalId (user_body alice (IntId 5)) = PyStr []"
    "ub_password (user_body alice (IntId 5)) = PyStr []"
    "ub_passwordChangeRequired (user_body alice (IntId 5))"
    using user_body_defaults [of alice "IntId 5" "[''D1'' \<mapsto> IntId 5]" scripted "st_of [] []"] a by simp_all
  moreover have "ub_passwordChangeRequired (user_body bob (IntId 5))"
    using user_body_defaults [of bob "IntId 5" "[''D1'' \<mapsto> IntId 5]" scripted "st_of [] []"] b lower_TRUE by simp
  moreover have "\<not> ub_passwordChangeRequired (user_body (bob\<lparr>u_passwordChangeRequired := Some PyNone\<rparr>) (IntId 5))"
    using user_body_defaults [of "bob\<lparr>u_passwordChangeRequired := Some PyNone\<rparr>" "IntId 5" "[''D1'' \<mapsto> IntId 5]" scripted "st_of [] []"] c lower_None
    by simp
  moreover have "log (snd (create_user scripted alice [''D1'' \<mapsto> IntId 5] (st_of [] [])))
       = [Sent (PostUser (user_body alice (IntId 5)))]"
    using user_body_defaults [of alice "IntId 5" "[''D1'' \<mapsto> IntId 5]" scripted "st_of [] []"] d
    by (simp add: st_of_def)
  moreover have "ub_nickname (user_body alice (IntId 5)) = ''alice''"
    "ub_departmentId (user_body alice (IntId 5)) = IntId 5"
    "ub_first (user_body alice (IntId 5)) = ''Alice''" "ub_last (user_body alice (IntId 5)) = ''A''"
    by (simp_all add: user_body_def alice_def)
  ultimately show ?thesis
    by (cases "user_body alice (IntId 5)") simp
qed

section \<open>The department step\<close>

lemma create_in_order_dom:
  "create_in_order http by_ext order m st = Some (Inr m', st') \<Longrightarrow> dom m' = dom m \<union> set order"
proof (induction order arbitrary: m st)
  case Nil
  then show ?case by simp
next
  case (Cons ext order)
  from Cons.prems obtain r parent_id dep_id st1 where
    "create_in_order http by_ext order (m(ext \<mapsto> dep_id)) st1 = Some (Inr m', st')"
    by (auto split: option.splits sum.splits prod.splits)
  from Cons.IH [OF this] show ?case by auto
qed

lemma create_in_order_cached:
  assumes "\<forall>ext\<in>set order. \<exists>r. by_ext ext = Some r \<and> external_id r = ext \<and> ext \<noteq> []
              \<and> find_department_by_external_id (DEPT_CACHE st) ext \<noteq> None"
  shows "\<exists>res. create_in_order http by_ext order m st = Some (res, st)"
  using assms
proof (induction order arbitrary: m)
  case Nil
  then show ?case by simp
next
  case (Cons ext order)
  then obtain r d where r: "by_ext ext = Some r" "external_id r = ext" "ext \<noteq> []"
    and d: "find_department_by_external_id (DEPT_CACHE st) ext = Some d"
    by auto
  have hit: "\<And>p. ensure_department http (dept_name r) (external_id r) p
      (or_None (dept_label r)) (or_None (dept_description r)) st = Some (getitem_id d, st)"
    using r d by (simp add: ensure_department_hit)
  have pre: "\<forall>ext\<in>set order. \<exists>r. by_ext ext = Some r \<and> external_id r = ext \<and> ext \<noteq> []
              \<and> find_department_by_external_id (DEPT_CACHE st) ext \<noteq> None"
    using Cons.prems by simp
  show ?case
  proof (cases "getitem_id d")
    case (Inl e)
    then show ?thesis
      using r(1) hit by (cases "resolve_parent by_ext m ext r") (simp_all del: fun_upd_apply)
  next
    case (Inr i)
    from Cons.IH [OF pre, of "m(ext \<mapsto> i)"]
    obtain res where "create_in_order http by_ext order (m(ext \<mapsto> i)) st = Some (res, st)"
      by blast
    then show ?thesis
      using r(1) hit Inr by (cases "resolve_parent by_ext m ext r") (simp_all del: fun_upd_apply)
  qed
qed

lemma create_in_order_cached_ok:
  assumes "\<forall>ext\<in>set order. \<exists>r d i. by_ext ext = Some r \<and> external_id r = ext \<and> ext \<noteq> []
              \<and> find_department_by_external_id (DEPT_CACHE st) ext = Some d \<and> rd_id d = Some i"
    and "\<forall>done c rest. order = done @ c # rest \<longrightarrow>
           (\<forall>r pe. by_ext c = Some r \<longrightarrow> or_None (parent_external_id r) = Some pe \<longrightarrow>
                   by_ext pe \<noteq> None \<longrightarrow> pe \<in> dom m \<union> set done)"
  shows "create_in_order http by_ext order m st =
           Some (Inr (\<lambda>k. if k \<in> set order
                           then Option.bind (find_department_by_external_id (DEPT_CACHE st) k) rd_id
                           else m k), st)"
  using assms
proof (induction order arbitrary: m)
  case Nil
  then show ?case by simp
next
  case (Cons ext order)
  then obtain r d i where r: "by_ext ext = Some r" "external_id r = ext" "ext \<noteq> []"
    and d: "find_department_by_external_id (DEPT_CACHE st) ext = Some d" and i: "rd_id d = Some i"
    by auto
  have hit: "\<And>p. ensure_department http (dept_name r) (external_id r) p
      (or_None (dept_label r)) (or_None (dept_description r)) st = Some (Inr i, st)"
    using r d i by (simp add: ensure_department_hit getitem_id_def)
  have "\<forall>ra pe. by_ext ext = Some ra \<longrightarrow> or_None (parent_external_id ra) = Some pe \<longrightarrow>
                   by_ext pe \<noteq> None \<longrightarrow> pe \<in> dom m \<union> set []"
    using Cons.prems(2) by blast
  then have "\<exists>p. resolve_parent by_ext m ext r = Inr p"
    using r(1) by (cases "or_None (parent_external_id r)")
      (auto simp: resolve_parent_def split: option.splits)
  then obtain p where p: "resolve_parent by_ext m ext r = Inr p" ..
  have pre1: "\<forall>ext\<in>set order. \<exists>r d i. by_ext ext = Some r \<and> external_id r = ext \<and> ext \<noteq> []
              \<and> find_department_by_external_id (DEPT_CACHE st) ext = Some d \<and> rd_id d = Some i"
    using Cons.prems(1) by simp
  have pre2: "\<forall>done c rest. order = done @ c # rest \<longrightarrow>
           (\<forall>r pe. by_ext c = Some r \<longrightarrow> or_None (parent_external_id r) = Some pe \<longrightarrow>
                   by_ext pe \<noteq> None \<longrightarrow> pe \<in> dom (m(ext \<mapsto> i)) \<union> set done)"
  proof (intro allI impI)
    fix dn c rest ra pe
    assume "order = dn @ c # rest" "by_ext c = Some ra" "or_None (parent_external_id ra) = Some pe"
      "by_ext pe \<noteq> None"
    with Cons.prems(2) [rule_format, of "ext # dn" c rest ra pe]
    show "pe \<in> dom (m(ext \<mapsto> i)) \<union> set dn" by auto
  qed
  have "create_in_order http by_ext (ext # order) m st =
          create_in_order http by_ext order (m(ext \<mapsto> i)) st"
    using r(1) p hit by (simp del: fun_upd_apply)
  also note Cons.IH [OF pre1 pre2]
  also have "(\<lambda>k. if k \<in> set order
               then Option.bind (find_department_by_external_id (DEPT_CACHE st) k) rd_id
               else (m(ext \<mapsto> i)) k)
           = (\<lambda>k. if k \<in> set (ext # order)
               then Option.bind (find_department_by_external_id (DEPT_CACHE st) k) rd_id
               else m k)"
    using d i by (auto intro!: ext)
  finally show ?case .
qed

lemma create_user_not_value_error:
  "create_user http u m st = (Inl e, st') \<Longrightarrow> e \<noteq> ValueError v"
  by (auto simp: create_user_def backoff_retry_send send_def raise_for_status_def
      split: option.splits prod.splits sum.splits transport_result.splits if_splits body.splits)

lemma provision_users_not_found:
  "provision_users http m user_rows results st = (Inl (ValueError (DepartmentNotFound d n)), st')
   \<Longrightarrow> m d = None"
proof (induction user_rows arbitrary: results st)
  case Nil
  then show ?case by simp
next
  case (Cons u user_rows)
  show ?case
  proof (cases "m (u_dept_external_id u) = None")
    case True
    with Cons.prems show ?thesis by simp
  next
    case False
    show ?thesis
    proof (cases "create_user http u m st")
      case (Pair res st1)
      show ?thesis
      proof (cases res)
        case (Inl e)
        with Pair False Cons.prems create_user_not_value_error [of http u m st e st1]
        show ?thesis by auto
      next
        case (Inr ur)
        with Pair False Cons.prems
        have "provision_users http m user_rows (results @ [ur]) (sleep (1 / 2) st1)
                = (Inl (ValueError (DepartmentNotFound d n)), st')"
          by auto
        then show ?thesis by (rule Cons.IH)
      qed
    qed
  qed
qed

text \<open>
  C4. A department whose non-empty external id is found in the cache is answered from the
  cache: the \<^verbatim>\<open>id\<close> of that entry is returned (\<^verbatim>\<open>existing["id"]\<close>, the \<^verbatim>\<open>KeyError\<close> for an
  entry that has no such key) and the state, hence the cache and the trace of requests, is
  unchanged. When every row of the input is found so, the whole department step leaves the
  state unchanged; for distinct ids without a cycle, and cache entries that have their
  \<^verbatim>\<open>id\<close>, it returns the mapping of every input id to the id of its cache entry.
\<close>

theorem cached_department_is_noop:
  "(ext \<noteq> [] \<and> find_department_by_external_id (DEPT_CACHE st) ext = Some d \<longrightarrow>
      ensure_department http nm ext parent_id label description st =
        Some (case rd_id d of None \<Rightarrow> Inl (KeyError ''id'') | Some i \<Rightarrow> Inr i, st))
   \<and> ((\<forall>r\<in>set dept_rows. external_id r \<noteq> []
          \<and> find_department_by_external_id (DEPT_CACHE st) (external_id r) \<noteq> None) \<longrightarrow>
        (\<exists>res. build_hierarchy_and_create http dept_rows st = Some (res, st))
        \<and> (distinct (map external_id dept_rows) \<and> acyclic (dept_edges dept_rows)
           \<and> (\<forall>r\<in>set dept_rows. \<forall>c. find_department_by_external_id (DEPT_CACHE st) (external_id r)
                                        = Some c \<longrightarrow> rd_id c \<noteq> None) \<longrightarrow>
             build_hierarchy_and_create http dept_rows st =
               Some (Inr (\<lambda>k. if k \<in> external_id ` set dept_rows
                               then Option.bind (find_department_by_external_id (DEPT_CACHE st) k) rd_id
                               else None), st)))"
proof (intro conjI impI)
  assume "ext \<noteq> [] \<and> find_department_by_external_id (DEPT_CACHE st) ext = Some d"
  then show "ensure_department http nm ext parent_id label description st =
        Some (case rd_id d of None \<Rightarrow> Inl (KeyError ''id'') | Some i \<Rightarrow> Inr i, st)"
    by (simp add: ensure_department_hit getitem_id_def)
next
  assume all: "\<forall>r\<in>set dept_rows. external_id r \<noteq> []
          \<and> find_department_by_external_id (DEPT_CACHE st) (external_id r) \<noteq> None"
  let ?o = "kahn_order dept_rows" and ?b = "by_ext_of dept_rows"
  have pre: "\<forall>ext\<in>set ?o. \<exists>r. ?b ext = Some r \<and> external_id r = ext \<and> ext \<noteq> []
              \<and> find_department_by_external_id (DEPT_CACHE st) ext \<noteq> None"
  proof
    fix ext assume "ext \<in> set ?o"
    then have "ext \<in> external_id ` set dept_rows" using kahn_order_subset by blast
    then have "?b ext \<noteq> None" by (simp add: by_ext_dom)
    then obtain r where r: "?b ext = Some r" by blast
    from by_ext_Some [OF r] all r
    show "\<exists>r. ?b ext = Some r \<and> external_id r = ext \<and> ext \<noteq> []
              \<and> find_department_by_external_id (DEPT_CACHE st) ext \<noteq> None"
      by auto
  qed
  show "\<exists>res. build_hierarchy_and_create http dept_rows st = Some (res, st)"
    using create_in_order_cached [OF pre, of http Map.empty]
    by (auto simp: build_hierarchy_and_create_def Let_def)
  assume da: "distinct (map external_id dept_rows) \<and> acyclic (dept_edges dept_rows)
           \<and> (\<forall>r\<in>set dept_rows. \<forall>c. find_department_by_external_id (DEPT_CACHE st) (external_id r)
                                        = Some c \<longrightarrow> rd_id c \<noteq> None)"
  then have l: "length ?o = length dept_rows" by (simp add: kahn_order_length)
  have s: "set ?o = external_id ` set dept_rows"
    using da by (simp add: kahn_order_complete)
  have pre1: "\<forall>ext\<in>set ?o. \<exists>r d i. ?b ext = Some r \<and> external_id r = ext \<and> ext \<noteq> []
              \<and> find_department_by_external_id (DEPT_CACHE st) ext = Some d \<and> rd_id d = Some i"
  proof
    fix ext assume e: "ext \<in> set ?o"
    with pre obtain r d where r: "?b ext = Some r" "external_id r = ext" "ext \<noteq> []"
      and d: "find_department_by_external_id (DEPT_CACHE st) ext = Some d"
      by auto
    from by_ext_Some [OF r(1)] have "r \<in> set dept_rows" by simp
    with da d r(2) have "rd_id d \<noteq> None" by blast
    then obtain i where "rd_id d = Some i" by blast
    with r d
    show "\<exists>r d i. ?b ext = Some r \<and> external_id r = ext \<and> ext \<noteq> []
              \<and> find_department_by_external_id (DEPT_CACHE st) ext = Some d \<and> rd_id d = Some i"
      by blast
  qed
  have pre2: "\<forall>done c rest. ?o = done @ c # rest \<longrightarrow>
           (\<forall>r pe. ?b c = Some r \<longrightarrow> or_None (parent_external_id r) = Some pe \<longrightarrow>
                   ?b pe \<noteq> None \<longrightarrow> pe \<in> dom (Map.empty :: string \<rightharpoonup> rid) \<union> set done)"
  proof (intro allI impI)
    fix dn c rest r pe
    assume o: "?o = dn @ c # rest" and r: "?b c = Some r"
      and p: "or_None (parent_external_id r) = Some pe" and b: "?b pe \<noteq> None"
    from b have "pe \<in> external_id ` set dept_rows" by (simp add: by_ext_dom)
    with p have isp: "in_set_parent dept_rows r = Some pe" by (simp add: in_set_parent_iff)
    from by_ext_Some [OF r] have "r \<in> set dept_rows" "external_id r = c" by simp_all
    from topo_prefix [OF kahn_order_topo kahn_order_distinct o this isp]
    show "pe \<in> dom (Map.empty :: string \<rightharpoonup> rid) \<union> set dn" by simp
  qed
  show "build_hierarchy_and_create http dept_rows st =
               Some (Inr (\<lambda>k. if k \<in> external_id ` set dept_rows
                               then Option.bind (find_department_by_external_id (DEPT_CACHE st) k) rd_id
                               else None), st)"
    using create_in_order_cached_ok [OF pre1 pre2, of http] l s
    by (simp add: build_hierarchy_and_create_def)
qed

theorem cached_department_is_noop_witness:
  "ensure_department scripted ''Dept B'' ''B'' None None None (st_of [] abc_cache)
     = Some (Inr (IntId 2), st_of [] abc_cache)
   \<and> ensure_department scripted ''Dept B'' ''B'' None None None
       (st_of [] [\<lparr>rd_id = None, rd_externalId = Some ''B'', rd_name = None\<rparr>])
     = Some (Inl (KeyError ''id''),
         st_of [] [\<lparr>rd_id = None, rd_externalId = Some ''B'', rd_name = None\<rparr>])
   \<and> build_hierarchy_and_create scripted abc_rows (st_of [] abc_cache)
     = Some (Inr (\<lambda>k. if k \<in> external_id ` set abc_rows
                       then Option.bind (find_department_by_external_id abc_cache k) rd_id
                       else None), st_of [] abc_cache)
   \<and> Option.bind (find_department_by_external_id abc_cache ''C'') rd_id = Some (IntId 3)"
proof -
  let ?noid = "\<lparr>rd_id = None, rd_externalId = Some ''B'', rd_name = None\<rparr>"
  have f: "find_department_by_external_id (DEPT_CACHE (st_of [] abc_cache)) ''B'' = Some (remote 2 ''B'')"
    by (simp add: st_of_def abc_cache_def remote_def)
  have g: "find_department_by_external_id (DEPT_CACHE (st_of [] [?noid])) ''B'' = Some ?noid"
    by (simp add: st_of_def)
  have all: "\<forall>r\<in>set abc_rows. external_id r \<noteq> []
          \<and> find_department_by_external_id (DEPT_CACHE (st_of [] abc_cache)) (external_id r) \<noteq> None"
    by (simp add: abc_rows_def dept_def st_of_def abc_cache_def remote_def)
  have ids: "\<forall>r\<in>set abc_rows. \<forall>c. find_department_by_external_id (DEPT_CACHE (st_of [] abc_cache))
                 (external_id r) = Some c \<longrightarrow> rd_id c \<noteq> None"
    by (auto simp: abc_rows_def dept_def st_of_def abc_cache_def remote_def)
  have u: "distinct (map external_id abc_rows)"
    by (simp add: abc_rows_def dept_def)
  note c = cached_department_is_noop [of "''B''" "st_of [] abc_cache" "remote 2 ''B''" scripted "''Dept B''" None None None abc_rows]
  note c' = cached_department_is_noop [of "''B''" "st_of [] [?noid]" ?noid scripted "''Dept B''" None None None "[]"]
  from c f have 1: "ensure_department scripted ''Dept B'' ''B'' None None None (st_of [] abc_cache)
     = Some (Inr (IntId 2), st_of [] abc_cache)"
    by (simp add: remote_def)
  from c' g have 2: "ensure_department scripted ''Dept B'' ''B'' None None None (st_of [] [?noid])
     = Some (Inl (KeyError ''id''), st_of [] [?noid])"
    by simp
  from c all u abc_acyclic ids
  have 3: "build_hierarchy_and_create scripted abc_rows (st_of [] abc_cache)
     = Some (Inr (\<lambda>k. if k \<in> external_id ` set abc_rows
                       then Option.bind (find_department_by_external_id (DEPT_CACHE (st_of [] abc_cache)) k) rd_id
                       else None), st_of [] abc_cache)"
    by blast
  have dc: "DEPT_CACHE (st_of [] abc_cache) = abc_cache"
    by (simp add: st_of_def)
  have 4: "Option.bind (find_department_by_external_id abc_cache ''C'') rd_id = Some (IntId 3)"
    by (simp add: abc_cache_def remote_def)
  from 1 2 3 4 show ?thesis unfolding dc by (intro conjI)
qed

text \<open>
  C7, as the code has it. For rows with distinct external ids, a row whose truthy parent
  id is not an external id of the input has in-degree 0 and stands in the initial queue.
  When it is upserted, the parent is looked up in the running mapping only, which holds
  input ids only: the parent id handed to \<^verbatim>\<open>ensure_department\<close> is \<^verbatim>\<open>None\<close> and the
  create payload has no \<^verbatim>\<open>parentId\<close>.
\<close>

theorem out_of_set_parent_omitted:
  assumes uniq: "distinct (map external_id dept_rows)"
    and r: "r \<in> set dept_rows"
    and p: "or_None (parent_external_id r) = Some pe"
    and out: "pe \<notin> external_id ` set dept_rows"
  shows "dd_get (snd (build_graph dept_rows)) (external_id r) = 0
       \<and> external_id r \<in> set (initial_queue (snd (build_graph dept_rows)))
       \<and> (dom ext_to_id \<subseteq> external_id ` set dept_rows \<longrightarrow>
            resolve_parent (by_ext_of dept_rows) ext_to_id (external_id r) r = Inr None
            \<and> create_in_order http (by_ext_of dept_rows) (external_id r # order) ext_to_id st =
                (case ensure_department http (dept_name r) (external_id r) None
                        (or_None (dept_label r)) (or_None (dept_description r)) st of
                   None \<Rightarrow> None
                 | Some (Inl e, st') \<Rightarrow> Some (Inl e, st')
                 | Some (Inr dep_id, st') \<Rightarrow>
                     create_in_order http (by_ext_of dept_rows) order
                       (ext_to_id(external_id r \<mapsto> dep_id)) st'))
       \<and> cp_parentId (post_payload (dept_name r) (external_id r) None
            (or_None (dept_label r)) (or_None (dept_description r))) = None"
proof -
  obtain graph indeg where b: "build_graph dept_rows = (graph, indeg)"
    by (cases "build_graph dept_rows")
  note g = build_graph_spec [OF b]
  have isp: "in_set_parent dept_rows r = None"
    using p out by (simp add: in_set_parent_def)
  have inj: "inj_on external_id (set dept_rows)"
    using uniq by (simp add: distinct_map)
  have "\<forall>r'\<in>set dept_rows. external_id r' = external_id r \<longrightarrow> r' = r"
    using inj r by (auto simp: inj_on_def)
  then have "remaining dept_rows [] (external_id r) = 0"
    using isp by (auto simp: remaining_def filter_empty_conv)
  with g(2) have d0: "dd_get indeg (external_id r) = 0" by simp
  have "external_id r \<in> fst ` set indeg" using g(3) r by simp
  with d0 initial_queue_spec(2) [OF g(4)] have q: "external_id r \<in> set (initial_queue indeg)"
    by simp
  have rp: "resolve_parent (by_ext_of dept_rows) ext_to_id (external_id r) r = Inr None"
    if "dom ext_to_id \<subseteq> external_id ` set dept_rows"
  proof -
    from that out have "ext_to_id pe = None" by (auto simp: domIff)
    moreover have "by_ext_of dept_rows pe = None" using out by (simp add: by_ext_dom)
    ultimately show ?thesis using p by (simp add: resolve_parent_def)
  qed
  have c: "create_in_order http (by_ext_of dept_rows) (external_id r # order) ext_to_id st =
                (case ensure_department http (dept_name r) (external_id r) None
                        (or_None (dept_label r)) (or_None (dept_description r)) st of
                   None \<Rightarrow> None
                 | Some (Inl e, st') \<Rightarrow> Some (Inl e, st')
                 | Some (Inr dep_id, st') \<Rightarrow>
                     create_in_order http (by_ext_of dept_rows) order
                       (ext_to_id(external_id r \<mapsto> dep_id)) st')"
    if "dom ext_to_id \<subseteq> external_id ` set dept_rows"
    using rp [OF that] by_ext_unique [OF uniq r] by (simp del: fun_upd_apply)
  have pl: "cp_parentId (post_payload (dept_name r) (external_id r) None
            (or_None (dept_label r)) (or_None (dept_description r))) = None"
    by (simp add: post_payload_def)
  from d0 q rp c pl show ?thesis
    by (simp add: b del: create_in_order.simps fun_upd_apply)
qed

theorem out_of_set_parent_omitted_witness:
  "dd_get (snd (build_graph px_rows)) ''X'' = 0
   \<and> ''X'' \<in> set (initial_queue (snd (build_graph px_rows)))
   \<and> resolve_parent (by_ext_of px_rows) Map.empty ''X'' (dept ''X'' (Some ''P'')) = Inr None"
proof -
  have u: "distinct (map external_id px_rows)" by (simp add: px_rows_def)
  have r: "dept ''X'' (Some ''P'') \<in> set px_rows" by (simp add: px_rows_def)
  have p: "or_None (parent_external_id (dept ''X'' (Some ''P''))) = Some ''P''"
    by (simp add: dept_def or_None_def)
  have out: "''P'' \<notin> external_id ` set px_rows" by (simp add: px_rows_def dept_def)
  have e: "external_id (dept ''X'' (Some ''P'')) = ''X''" by (simp add: dept_def)
  have d: "dom (Map.empty :: string \<rightharpoonup> rid) \<subseteq> external_id ` set px_rows" by simp
  from out_of_set_parent_omitted [OF u r p out, of Map.empty scripted "[]" "st_of [] []"] d
  show ?thesis unfolding e by blast
qed

text \<open>
  C7 as stated fails: the parent is not resolved by a cache lookup. The cache holds the
  parent under its external id, with id 7, and the department is created without a
  \<^verbatim>\<open>parentId\<close>.
\<close>

theorem out_of_set_parent_counterexample:
  "find_department_by_external_id [remote 7 ''P''] ''P'' = Some (remote 7 ''P'')
   \<and> rd_id (remote 7 ''P'') = Some (IntId 7)
   \<and> snd (the (build_hierarchy_and_create scripted px_rows
        (st_of [\<lparr>status_code = 201, body = DeptObject (remote 8 ''X'')\<rparr>] [remote 7 ''P''])))
     = \<lparr>world = [], DEPT_CACHE = [remote 7 ''P'', remote 8 ''X''],
        log = [Sent (PostDepartment \<lparr>cp_name = ''Dept X'', cp_externalId = ''X'',
                 cp_parentId = None, cp_label = None, cp_description = None\<rparr>)]\<rparr>"
proof -
  have o: "kahn_order px_rows = [''X'']"
    by (simp add: px_rows_def kahn_order_def build_graph_def build_graph_step_def by_ext_of_def
      dept_def or_None_def dd_setdefault_def dd_add_def dd_get_def graph_get_def initial_queue_def
      relax_def)
  have l: "length px_rows = 1" by (simp add: px_rows_def)
  show ?thesis
    by (simp add: build_hierarchy_and_create_def o l)
       (simp add: px_rows_def by_ext_of_def resolve_parent_def
        ensure_department_def adopt_by_name_def create_department_def store_created_def
        post_payload_def backoff_retry_send send_def scripted_def raise_for_status_def st_of_def
        dept_def or_None_def remote_def truthy_def getitem_id_def)
qed

text \<open>
  C9. When the department step returns a mapping, its keys are the external ids of the
  input, which are distinct. So the user loop raises its department-not-found error at a
  row exactly when the row's department is none of the input's, and it does so with the
  state unchanged, before any request for that row.
\<close>

theorem mapping_covers_input:
  assumes "build_hierarchy_and_create http dept_rows st = Some (Inr ext_to_id, st')"
  shows "dom ext_to_id = external_id ` set dept_rows
       \<and> distinct (map external_id dept_rows)
       \<and> ((fst (provision_users http' ext_to_id (u # user_rows) results s)
             = Inl (ValueError (DepartmentNotFound (u_dept_external_id u) (u_nickname u))))
           = (u_dept_external_id u \<notin> external_id ` set dept_rows))
       \<and> (u_dept_external_id u \<notin> external_id ` set dept_rows \<longrightarrow>
            provision_users http' ext_to_id (u # user_rows) results s
              = (Inl (ValueError (DepartmentNotFound (u_dept_external_id u) (u_nickname u))), s))"
proof -
  from assms have l: "length (kahn_order dept_rows) = length dept_rows"
    by (auto simp: build_hierarchy_and_create_def Let_def split: if_splits)
  with assms have "create_in_order http (by_ext_of dept_rows) (kahn_order dept_rows) Map.empty st
                     = Some (Inr ext_to_id, st')"
    by (simp add: build_hierarchy_and_create_def)
  from create_in_order_dom [OF this] kahn_order_full [OF l]
  have d: "dom ext_to_id = external_id ` set dept_rows"
    and u: "distinct (map external_id dept_rows)" by simp_all
  have a: "u_dept_external_id u \<notin> external_id ` set dept_rows \<longrightarrow>
            provision_users http' ext_to_id (u # user_rows) results s
              = (Inl (ValueError (DepartmentNotFound (u_dept_external_id u) (u_nickname u))), s)"
    using d by (auto simp: domIff)
  have b: "(fst (provision_users http' ext_to_id (u # user_rows) results s)
             = Inl (ValueError (DepartmentNotFound (u_dept_external_id u) (u_nickname u))))
           = (u_dept_external_id u \<notin> external_id ` set dept_rows)"
  proof
    assume "fst (provision_users http' ext_to_id (u # user_rows) results s)
             = Inl (ValueError (DepartmentNotFound (u_dept_external_id u) (u_nickname u)))"
    then have "provision_users http' ext_to_id (u # user_rows) results s
             = (Inl (ValueError (DepartmentNotFound (u_dept_external_id u) (u_nickname u))),
                snd (provision_users http' ext_to_id (u # user_rows) results s))"
      by (metis prod.collapse)
    from provision_users_not_found [OF this] d
    show "u_dept_external_id u \<notin> external_id ` set dept_rows" by (auto simp: domIff)
  next
    assume "u_dept_external_id u \<notin> external_id ` set dept_rows"
    with a show "fst (provision_users http' ext_to_id (u # user_rows) results s)
             = Inl (ValueError (DepartmentNotFound (u_dept_external_id u) (u_nickname u)))"
      by simp
  qed
  from d u a b show ?thesis by (intro conjI)
qed

theorem mapping_covers_input_witness:
  "build_hierarchy_and_create scripted [dept ''D1'' None]
      (st_of [\<lparr>status_code = 201, body = DeptObject (remote 5 ''D1'')\<rparr>] [])
     = Some (Inr [''D1'' \<mapsto> IntId 5],
         \<lparr>world = [], DEPT_CACHE = [remote 5 ''D1''],
          log = [Sent (PostDepartment (post_payload ''Dept D1'' ''D1'' None None None))]\<rparr>)
   \<and> dom [''D1'' \<mapsto> IntId 5] = external_id ` set [dept ''D1'' None]
   \<and> provision_users scripted [''D1'' \<mapsto> IntId 5] [alice\<lparr>u_dept_external_id := ''ZZ''\<rparr>, bob] []
        (st_of [] [])
     = (Inl (ValueError (DepartmentNotFound ''ZZ'' ''alice'')), st_of [] [])"
proof -
  have o: "kahn_order [dept ''D1'' None] = [''D1'']"
    by (simp add: kahn_order_def build_graph_def build_graph_step_def by_ext_of_def
      dept_def or_None_def dd_setdefault_def dd_add_def dd_get_def graph_get_def initial_queue_def
      relax_def)
  have b: "build_hierarchy_and_create scripted [dept ''D1'' None]
      (st_of [\<lparr>status_code = 201, body = DeptObject (remote 5 ''D1'')\<rparr>] [])
     = Some (Inr [''D1'' \<mapsto> IntId 5],
         \<lparr>world = [], DEPT_CACHE = [remote 5 ''D1''],
          log = [Sent (PostDepartment (post_payload ''Dept D1'' ''D1'' None None None))]\<rparr>)"
    by (simp add: build_hierarchy_and_create_def o)
       (simp add: by_ext_of_def resolve_parent_def
        ensure_department_def adopt_by_name_def create_department_def store_created_def
        backoff_retry_send send_def scripted_def raise_for_status_def st_of_def
        dept_def or_None_def remote_def truthy_def getitem_id_def)
  have z: "u_dept_external_id (alice\<lparr>u_dept_external_id := ''ZZ''\<rparr>) \<notin> external_id ` set [dept ''D1'' None]"
    by (simp add: dept_def)
  from mapping_covers_input [OF b, of scripted "alice\<lparr>u_dept_external_id := ''ZZ''\<rparr>" "[bob]" "[]" "st_of [] []"] z
  have "dom [''D1'' \<mapsto> IntId 5] = external_id ` set [dept ''D1'' None]"
    and "provision_users scripted [''D1'' \<mapsto> IntId 5] [alice\<lparr>u_dept_external_id := ''ZZ''\<rparr>, bob] []
        (st_of [] [])
     = (Inl (ValueError (DepartmentNotFound (u_dept_external_id (alice\<lparr>u_dept_external_id := ''ZZ''\<rparr>))
          (u_nickname (alice\<lparr>u_dept_external_id := ''ZZ''\<rparr>)))), st_of [] [])"
    by blast+
  with b show ?thesis by (simp add: alice_def)
qed

end
